theory Spec2Isabelle
  imports Main "HOL-Library.Word"
begin

section \<open>Data model of package filebuf\<close>

text \<open>
  A shallow embedding of \<^verbatim>\<open>filebuf.go\<close>. Every method of \<^verbatim>\<open>*Filebuf\<close> becomes a
  function that takes the receiver and the state of the operating system and returns
  the method's result together with the updated receiver and operating system.

  Go's \<^verbatim>\<open>int\<close> and \<^verbatim>\<open>int64\<close> values that can be negative (\<^verbatim>\<open>MaxBufSize\<close>, the
  read offset \<^verbatim>\<open>off\<close>, a position given to \<^verbatim>\<open>ReadAt\<close>) are HOL integers; lengths and
  byte counts are natural numbers. No arithmetic of the package can wrap around:
  every sum it forms is bounded by the length of a slice or of a file that exists.
\<close>

type_synonym byte = "8 word"

datatype error =
    EOF
  | ErrInvalid
  | ErrClosed
  | ErrNegativeOffset
  | ErrShortWrite
  | Errno nat
  | CannotOpen error
  | CannotDelete error
  | CannotCopy error
  | CannotSeek error
  | CannotDup error

text \<open>
  \<^verbatim>\<open>EOF\<close> is \<^verbatim>\<open>io.EOF\<close>; \<^verbatim>\<open>ErrInvalid\<close> and \<^verbatim>\<open>ErrClosed\<close> are what the methods of
  \<^verbatim>\<open>*os.File\<close> return on a nil or closed file; \<^verbatim>\<open>Errno\<close> is any error of a system
  call or of a caller's stream. The constructors \<^verbatim>\<open>Cannot...\<close> are the wrapped errors
  that \<^verbatim>\<open>fmt.Errorf("cannot ...: %w", err)\<close> builds.
\<close>

datatype panic = SliceBounds | MakeSliceCap

datatype 'a outcome = Ret 'a | Panic panic

subsection \<open>Slices\<close>

text \<open>
  A \<^verbatim>\<open>[]byte\<close> is nil (\<open>None\<close>) or a view of a backing array: \<open>arr\<close> is the array
  from the slice's first element on, so that its length is the capacity, and \<open>len\<close>
  is the slice's length.
\<close>

record slice =
  arr :: "byte list"
  len :: nat

definition slen :: "slice option \<Rightarrow> nat" where
  "slen b = (case b of None \<Rightarrow> 0 | Some s \<Rightarrow> len s)"

definition scap :: "slice option \<Rightarrow> nat" where
  "scap b = (case b of None \<Rightarrow> 0 | Some s \<Rightarrow> length (arr s))"

definition sbytes :: "slice option \<Rightarrow> byte list" where
  "sbytes b = (case b of None \<Rightarrow> [] | Some s \<Rightarrow> take (len s) (arr s))"

text \<open>\<^verbatim>\<open>make([]byte, 0, c)\<close> panics when the capacity is negative.\<close>

definition make_bytes :: "int \<Rightarrow> panic + slice" where
  "make_bytes c = (if c < 0 then Inl MakeSliceCap
                   else Inr \<lparr>arr = replicate (nat c) 0, len = 0\<rparr>)"

text \<open>\<^verbatim>\<open>s[:hi]\<close> on a slice: the upper bound may exceed the length but not the capacity.\<close>

definition reslice :: "slice \<Rightarrow> int \<Rightarrow> panic + slice" where
  "reslice s hi = (if 0 \<le> hi \<and> hi \<le> int (length (arr s))
                   then Inr (s\<lparr>len := nat hi\<rparr>) else Inl SliceBounds)"

text \<open>
  \<^verbatim>\<open>s[lo:hi]\<close> used as a value: its bytes, or a panic unless
  \<^verbatim>\<open>0 <= lo <= hi <= cap(s)\<close>. A nil slice has capacity 0.
\<close>

definition subslice :: "slice option \<Rightarrow> int \<Rightarrow> int \<Rightarrow> panic + byte list" where
  "subslice b lo hi =
     (if 0 \<le> lo \<and> lo \<le> hi \<and> hi \<le> int (scap b)
      then Inr (take (nat hi - nat lo) (drop (nat lo) (case b of None \<Rightarrow> [] | Some s \<Rightarrow> arr s)))
      else Inl SliceBounds)"

text \<open>\<^verbatim>\<open>copy(dst, src)\<close> on a destination given by value: the new contents of \<^verbatim>\<open>dst\<close>.\<close>

definition copy_bytes :: "byte list \<Rightarrow> byte list \<Rightarrow> byte list" where
  "copy_bytes dst src = take (length dst) src @ drop (length src) dst"

text \<open>
  \<^verbatim>\<open>copy(s[lo:], src)\<close>, and the store a reader makes through a window \<^verbatim>\<open>s[lo:hi]\<close>:
  the backing array is overwritten from index \<open>lo\<close>, at most up to the window's end.
\<close>

definition store_at :: "slice \<Rightarrow> nat \<Rightarrow> nat \<Rightarrow> byte list \<Rightarrow> slice" where
  "store_at s lo hi src =
     s\<lparr>arr := take lo (arr s) @ take (hi - lo) src @ drop (lo + min (hi - lo) (length src)) (arr s)\<rparr>"

subsection \<open>The operating system\<close>

text \<open>
  The files of the operating system are outside the package; they are modelled from the
  documentation of \<^verbatim>\<open>os.File\<close>. An open file description has contents and a position;
  a file descriptor names a description, and a duplicated descriptor names the same
  one. \<open>faults\<close> is the environment's say in what fails: each system call that can fail
  takes the head of the list; \<open>Some (k, e)\<close> makes the call fail with error \<open>e\<close> after
  transferring at most \<open>k\<close> bytes, \<open>None\<close> and the empty list let it succeed.
  Directory entries are not modelled: removing the temporary file's name changes
  nothing that a descriptor can observe.
\<close>

record ofile =
  content :: "byte list"
  pos :: nat

type_synonym fault = "nat \<times> error"

record world =
  descs :: "nat \<Rightarrow> ofile"
  fds :: "nat \<Rightarrow> nat option"
  nfd :: nat
  ndesc :: nat
  faults :: "fault option list"

definition next_fault :: "world \<Rightarrow> fault option \<times> world" where
  "next_fault w = (case faults w of [] \<Rightarrow> (None, w) | x # xs \<Rightarrow> (x, w\<lparr>faults := xs\<rparr>))"

text \<open>\<^verbatim>\<open>ioutil.TempFile(dir, pattern)\<close>: a new empty file, open on a new descriptor.\<close>

definition TempFile :: "string \<Rightarrow> string \<Rightarrow> world \<Rightarrow> (error + nat) \<times> world" where
  "TempFile dir pattern w =
     (case next_fault w of
        (Some (k, e), w') \<Rightarrow> (Inl e, w')
      | (None, w') \<Rightarrow>
          (Inr (nfd w'),
           w'\<lparr>descs := (descs w')(ndesc w' := \<lparr>content = [], pos = 0\<rparr>),
              fds := (fds w')(nfd w' \<mapsto> ndesc w'),
              nfd := Suc (nfd w'), ndesc := Suc (ndesc w')\<rparr>))"

text \<open>\<^verbatim>\<open>os.Remove(name)\<close> of the file just created.\<close>

definition Remove :: "world \<Rightarrow> error option \<times> world" where
  "Remove w = (case next_fault w of (Some (k, e), w') \<Rightarrow> (Some e, w') | (None, w') \<Rightarrow> (None, w'))"

text \<open>Writing \<open>p\<close> at the position of a description; a gap before the position reads as zeros.\<close>

definition write_at :: "ofile \<Rightarrow> byte list \<Rightarrow> ofile" where
  "write_at fl p =
     \<lparr>content = take (pos fl) (content fl @ replicate (pos fl - length (content fl)) 0)
                @ p @ drop (pos fl + length p) (content fl),
      pos = pos fl + length p\<rparr>"

text \<open>
  \<^verbatim>\<open>(*os.File).Write\<close>. The temporary file is not opened in append mode, so the write
  goes to the description's position. A nil file gives \<^verbatim>\<open>ErrInvalid\<close>.
\<close>

definition file_Write :: "nat option \<Rightarrow> byte list \<Rightarrow> world \<Rightarrow> (nat \<times> error option) \<times> world" where
  "file_Write fl p w =
     (case fl of None \<Rightarrow> ((0, Some ErrInvalid), w)
      | Some fd \<Rightarrow>
         (case fds w fd of None \<Rightarrow> ((0, Some ErrClosed), w)
          | Some d \<Rightarrow>
             (case next_fault w of
                (Some (k, e), w') \<Rightarrow>
                  ((min k (length p), Some e),
                   w'\<lparr>descs := (descs w')(d := write_at (descs w' d) (take k p))\<rparr>)
              | (None, w') \<Rightarrow>
                  ((length p, None),
                   w'\<lparr>descs := (descs w')(d := write_at (descs w' d) p)\<rparr>))))"

text \<open>
  \<^verbatim>\<open>(*os.File).ReadAt(p, off)\<close> with \<open>n = len(p)\<close>: the bytes read and the error. It
  never moves the description's position. It returns a non-nil error whenever it reads
  fewer than \<open>n\<close> bytes, \<^verbatim>\<open>io.EOF\<close> at the end of the file; with \<open>n = 0\<close> it makes no
  system call and returns \<^verbatim>\<open>0, nil\<close>.
\<close>

definition file_ReadAt :: "nat option \<Rightarrow> nat \<Rightarrow> int \<Rightarrow> world \<Rightarrow> (byte list \<times> error option) \<times> world" where
  "file_ReadAt fl n ofs w =
     (case fl of None \<Rightarrow> (([], Some ErrInvalid), w)
      | Some fd \<Rightarrow>
         (case fds w fd of None \<Rightarrow> (([], Some ErrClosed), w)
          | Some d \<Rightarrow>
             if ofs < 0 then (([], Some ErrNegativeOffset), w)
             else if n = 0 then (([], None), w)
             else
               (let avail = take n (drop (nat ofs) (content (descs w d))) in
                case next_fault w of
                  (Some (k, e), w') \<Rightarrow> ((take k avail, Some e), w')
                | (None, w') \<Rightarrow> ((avail, if length avail < n then Some EOF else None), w'))))"

subsection \<open>The buffer\<close>

record Filebuf =
  MaxBufSize :: int
  IgnoreDeleteErr :: bool
  TempDir :: string
  TempFilePattern :: string
  buf :: "slice option"
  filep :: "nat option"
  off :: int

definition New :: "int \<Rightarrow> Filebuf" where
  "New sz = \<lparr>MaxBufSize = sz, IgnoreDeleteErr = False, TempDir = [], TempFilePattern = [],
               buf = None, filep = None, off = 0\<rparr>"

section \<open>Writing\<close>

definition moveToFile :: "Filebuf \<Rightarrow> world \<Rightarrow> error option \<times> Filebuf \<times> world" where
  "moveToFile f w =
     (case TempFile (TempDir f) (TempFilePattern f) w of
        (Inl e, w1) \<Rightarrow> (Some (CannotOpen e), f\<lparr>filep := None\<rparr>, w1)
      | (Inr fd, w1) \<Rightarrow>
          (let f1 = f\<lparr>filep := Some fd\<rparr> in
           case Remove w1 of
             (Some e, w2) \<Rightarrow>
               if \<not> IgnoreDeleteErr f1 then (Some (CannotDelete e), f1, w2)
               else (case file_Write (filep f1) (sbytes (buf f1)) w2 of
                       ((n, Some e'), w3) \<Rightarrow> (Some (CannotCopy e'), f1, w3)
                     | ((n, None), w3) \<Rightarrow> (None, f1, w3))
           | (None, w2) \<Rightarrow>
               (case file_Write (filep f1) (sbytes (buf f1)) w2 of
                  ((n, Some e'), w3) \<Rightarrow> (Some (CannotCopy e'), f1, w3)
                | ((n, None), w3) \<Rightarrow> (None, f1, w3))))"

text \<open>
  \<^verbatim>\<open>appendBuffer\<close> allocates the array on first use, extends the slice by \<^verbatim>\<open>len(p)\<close>
  and copies \<^verbatim>\<open>p\<close> into the new part. The panic of \<^verbatim>\<open>make\<close> or of the slice expression
  is a result; the receiver is returned as the panic leaves it.
\<close>

definition appendBuffer :: "Filebuf \<Rightarrow> byte list \<Rightarrow> panic option \<times> Filebuf" where
  "appendBuffer f p =
     (case (case buf f of None \<Rightarrow> make_bytes (MaxBufSize f) | Some s \<Rightarrow> Inr s) of
        Inl pn \<Rightarrow> (Some pn, f)
      | Inr s \<Rightarrow>
          (let l = len s in
           case reslice s (int l + int (length p)) of
             Inl pn \<Rightarrow> (Some pn, f\<lparr>buf := Some s\<rparr>)
           | Inr s' \<Rightarrow> (None, f\<lparr>buf := Some (store_at s' l (len s') p)\<rparr>)))"

definition Write :: "Filebuf \<Rightarrow> byte list \<Rightarrow> world \<Rightarrow> (nat \<times> error option) outcome \<times> Filebuf \<times> world" where
  "Write f p w =
     (if filep f \<noteq> None then
        (case file_Write (filep f) p w of (r, w') \<Rightarrow> (Ret r, f, w'))
      else if MaxBufSize f > 0 \<and> int (slen (buf f)) + int (length p) > MaxBufSize f then
        (case moveToFile f w of
           (Some e, f', w') \<Rightarrow> (Ret (0, Some e), f', w')
         | (None, f', w') \<Rightarrow>
             (let f'' = f'\<lparr>buf := None\<rparr> in
              case file_Write (filep f'') p w' of (r, w'') \<Rightarrow> (Ret r, f'', w'')))
      else
        (case appendBuffer f p of
           (Some pn, f') \<Rightarrow> (Panic pn, f', w)
         | (None, f') \<Rightarrow> (Ret (length p, None), f', w)))"

section \<open>Reading\<close>

text \<open>
  \<^verbatim>\<open>copyBuffer\<close> returns the count and the new contents of the destination. The slice
  expression \<^verbatim>\<open>f.buf[f.off:end]\<close> panics when the offset is negative.
\<close>

definition copyBuffer :: "Filebuf \<Rightarrow> byte list \<Rightarrow> (nat \<times> byte list) outcome" where
  "copyBuffer f p =
     (let e0 = off f + int (length p);
          e = (if e0 > int (slen (buf f)) then int (slen (buf f)) else e0)
      in case subslice (buf f) (off f) e of
           Inl pn \<Rightarrow> Panic pn
         | Inr src \<Rightarrow> Ret (nat (e - off f), copy_bytes p src))"

text \<open>
  \<^verbatim>\<open>Read\<close> returns the result, the destination as the call leaves it, the receiver
  and the operating system.
\<close>

definition Read :: "Filebuf \<Rightarrow> byte list \<Rightarrow> world \<Rightarrow>
    (nat \<times> error option) outcome \<times> byte list \<times> Filebuf \<times> world" where
  "Read f p w =
     (if filep f \<noteq> None then
        (case file_ReadAt (filep f) (length p) (off f) w of
           ((data, err), w') \<Rightarrow>
             (Ret (length data, err), copy_bytes p data, f\<lparr>off := off f + int (length data)\<rparr>, w'))
      else if off f \<ge> int (slen (buf f)) then (Ret (0, Some EOF), p, f, w)
      else
        (case copyBuffer f p of
           Panic pn \<Rightarrow> (Panic pn, p, f, w)
         | Ret (n, p') \<Rightarrow> (Ret (n, None), p', f\<lparr>off := off f + int n\<rparr>, w)))"

text \<open>When \<^verbatim>\<open>Read\<close> panics, \<^verbatim>\<open>ReadAt\<close> does not get to restore the offset.\<close>

definition ReadAt :: "Filebuf \<Rightarrow> byte list \<Rightarrow> int \<Rightarrow> world \<Rightarrow>
    (nat \<times> error option) outcome \<times> byte list \<times> Filebuf \<times> world" where
  "ReadAt f p ps w =
     (let saved = off f in
      case Read (f\<lparr>off := ps\<rparr>) p w of
        (Panic pn, p', f', w') \<Rightarrow> (Panic pn, p', f', w')
      | (Ret r, p', f', w') \<Rightarrow> (Ret r, p', f'\<lparr>off := saved\<rparr>, w'))"

text \<open>\<^verbatim>\<open>(*os.File).Seek(ofs, 0)\<close>: the error only.\<close>

definition file_Seek :: "nat option \<Rightarrow> int \<Rightarrow> world \<Rightarrow> error option \<times> world" where
  "file_Seek fl ofs w =
     (case fl of None \<Rightarrow> (Some ErrInvalid, w)
      | Some fd \<Rightarrow>
         (case fds w fd of None \<Rightarrow> (Some ErrClosed, w)
          | Some d \<Rightarrow>
             (case next_fault w of
                (Some (k, e), w') \<Rightarrow> (Some e, w')
              | (None, w') \<Rightarrow>
                  if ofs < 0 then (Some (Errno 22), w')
                  else (None, w'\<lparr>descs := (descs w')(d := (descs w' d)\<lparr>pos := nat ofs\<rparr>)\<rparr>))))"

definition Rewind :: "Filebuf \<Rightarrow> world \<Rightarrow> error option \<times> Filebuf \<times> world" where
  "Rewind f w =
     (let f' = f\<lparr>off := 0\<rparr> in
      if filep f' \<noteq> None then
        (case file_Seek (filep f') 0 w of
           (Some e, w') \<Rightarrow> (Some e, f', w')
         | (None, w') \<Rightarrow> (None, f', w'))
      else (None, f', w))"

section \<open>Clone and Close\<close>

text \<open>
  \<^verbatim>\<open>syscall.Dup\<close>: a new descriptor of the same open file description, so the two share
  contents and position. \<^verbatim>\<open>os.NewFile\<close> returns nil only for an invalid descriptor,
  which a successful \<^verbatim>\<open>Dup\<close> never returns, so that branch of \<^verbatim>\<open>Clone\<close> has no case.
\<close>

definition Dup :: "nat \<Rightarrow> world \<Rightarrow> (error + nat) \<times> world" where
  "Dup fd w =
     (case fds w fd of None \<Rightarrow> (Inl (Errno 9), w)
      | Some d \<Rightarrow>
         (case next_fault w of
            (Some (k, e), w') \<Rightarrow> (Inl e, w')
          | (None, w') \<Rightarrow>
              (Inr (nfd w'), w'\<lparr>fds := (fds w')(nfd w' \<mapsto> d), nfd := Suc (nfd w')\<rparr>)))"

text \<open>
  The clone is a copy of the struct. A memory-backed clone shares the backing array with
  the original; the model copies it, which no method can tell apart as long as neither
  is written to, as the documentation of \<^verbatim>\<open>Clone\<close> demands.
\<close>

definition Clone :: "Filebuf \<Rightarrow> world \<Rightarrow> (error + Filebuf) \<times> world" where
  "Clone f w =
     (let fb = f in
      case filep fb of
        None \<Rightarrow> (Inr fb, w)
      | Some fd \<Rightarrow>
         (case Dup fd w of
            (Inl e, w') \<Rightarrow> (Inl (CannotDup e), w')
          | (Inr fd', w') \<Rightarrow> (Inr (fb\<lparr>filep := Some fd'\<rparr>), w')))"

text \<open>\<^verbatim>\<open>(*os.File).Close\<close>: the descriptor is closed even when an error is reported.\<close>

definition file_Close :: "nat option \<Rightarrow> world \<Rightarrow> error option \<times> world" where
  "file_Close fl w =
     (case fl of None \<Rightarrow> (Some ErrInvalid, w)
      | Some fd \<Rightarrow>
         (case fds w fd of None \<Rightarrow> (Some ErrClosed, w)
          | Some d \<Rightarrow>
             (case next_fault w of
                (Some (k, e), w') \<Rightarrow> (Some e, w'\<lparr>fds := (fds w')(fd := None)\<rparr>)
              | (None, w') \<Rightarrow> (None, w'\<lparr>fds := (fds w')(fd := None)\<rparr>))))"

definition Close :: "Filebuf \<Rightarrow> world \<Rightarrow> error option \<times> Filebuf \<times> world" where
  "Close f w =
     (if filep f \<noteq> None then (case file_Close (filep f) w of (e, w') \<Rightarrow> (e, f, w'))
      else (None, f\<lparr>buf := None\<rparr>, w))"

section \<open>Streams of the caller\<close>

text \<open>
  An \<^verbatim>\<open>io.Reader\<close> given to \<^verbatim>\<open>ReadFrom\<close> is any code of the caller's. Here it is a
  script: each entry is the bytes the reader is ready to hand out in one call and the
  error it returns with the last of them. A call that offers less room than the entry
  holds gets what fits and no error, and the rest stays for the next call. Behind the
  script the reader is at its end. So a reader may return fewer bytes than asked for,
  bytes together with an error, or \<^verbatim>\<open>0, nil\<close>.
\<close>

type_synonym reader = "(byte list \<times> error option) list"

fun reader_Read :: "reader \<Rightarrow> nat \<Rightarrow> (byte list \<times> error option) \<times> reader" where
  "reader_Read [] k = (([], Some EOF), [])"
| "reader_Read ((bs, e) # rest) k =
     (if k < length bs then ((take k bs, None), (drop k bs, e) # rest) else ((bs, e), rest))"

fun rsize :: "reader \<Rightarrow> nat" where
  "rsize [] = 0"
| "rsize ((bs, e) # rest) = Suc (length bs + rsize rest)"

lemma reader_Read_rsize:
  "reader_Read r k = ((d, None), r') \<Longrightarrow> 0 < k \<Longrightarrow> rsize r' < rsize r"
  by (cases r) (auto split: if_splits)

text \<open>
  What a reader hands out until it first returns an error, and that error (\<^verbatim>\<open>io.EOF\<close>
  behind the script).
\<close>

fun rdata :: "reader \<Rightarrow> byte list" where
  "rdata [] = []"
| "rdata ((bs, None) # rest) = bs @ rdata rest"
| "rdata ((bs, Some e) # rest) = bs"

fun rerror :: "reader \<Rightarrow> error" where
  "rerror [] = EOF"
| "rerror ((bs, None) # rest) = rerror rest"
| "rerror ((bs, Some e) # rest) = e"

text \<open>
  \<^verbatim>\<open>io.Copy(f.file, r)\<close>: read into a buffer of 32 KiB and write what was read, until
  the reader returns an error or a write fails; \<^verbatim>\<open>io.EOF\<close> ends the copy without error.
\<close>

function copy_to_file :: "nat option \<Rightarrow> reader \<Rightarrow> world \<Rightarrow> nat \<Rightarrow> (nat \<times> error option) \<times> reader \<times> world" where
  "copy_to_file fl r w written =
     (case reader_Read r 32768 of
        ((data, er), r') \<Rightarrow>
          (case (if data \<noteq> [] then file_Write fl data w else ((0, None), w)) of
             ((nw, ew), w') \<Rightarrow>
               if ew \<noteq> None then ((written + nw, ew), r', w')
               else if length data \<noteq> nw then ((written + nw, Some ErrShortWrite), r', w')
               else (case er of
                       Some e \<Rightarrow> ((written + nw, if e = EOF then None else Some e), r', w')
                     | None \<Rightarrow> copy_to_file fl r' w' (written + nw))))"
  by pat_completeness auto
termination
  by (relation "measure (\<lambda>(fl, r, w, n). rsize r)") (auto dest: reader_Read_rsize [OF sym])

declare copy_to_file.simps [simp del]

text \<open>
  \<^verbatim>\<open>io.Copy(b, r)\<close> into a \<^verbatim>\<open>bytes.Buffer\<close>, which reads through windows of at least
  \<^verbatim>\<open>bytes.MinRead\<close> = 512 bytes: the bytes gathered and the error.
\<close>

function buffer_ReadFrom :: "reader \<Rightarrow> byte list \<Rightarrow> (byte list \<times> error option) \<times> reader" where
  "buffer_ReadFrom r acc =
     (case reader_Read r 512 of
        ((data, er), r') \<Rightarrow>
          (case er of
             Some e \<Rightarrow> ((acc @ data, if e = EOF then None else Some e), r')
           | None \<Rightarrow> buffer_ReadFrom r' (acc @ data)))"
  by pat_completeness auto
termination
  by (relation "measure (\<lambda>(r, acc). rsize r)") (auto dest: reader_Read_rsize [OF sym])

declare buffer_ReadFrom.simps [simp del]

text \<open>
  \<^verbatim>\<open>append(s, xs...)\<close>. Within the capacity it extends the slice in place; beyond it the
  runtime allocates a new array, whose capacity the language leaves open: the model takes
  the least. Appending nothing to nil gives nil.
\<close>

definition append_bytes :: "slice option \<Rightarrow> byte list \<Rightarrow> slice option" where
  "append_bytes b xs =
     (case b of
        None \<Rightarrow> (if xs = [] then None else Some \<lparr>arr = xs, len = length xs\<rparr>)
      | Some s \<Rightarrow>
          if len s + length xs \<le> length (arr s)
          then Some (store_at (s\<lparr>len := len s + length xs\<rparr>) (len s) (len s + length xs) xs)
          else Some \<lparr>arr = take (len s) (arr s) @ xs, len = len s + length xs\<rparr>)"

text \<open>An \<^verbatim>\<open>io.Writer\<close> given to \<^verbatim>\<open>WriteTo\<close>: what it has taken, and its own faults.\<close>

record sink =
  sunk :: "byte list"
  sfaults :: "fault option list"

definition sink_Write :: "sink \<Rightarrow> byte list \<Rightarrow> (nat \<times> error option) \<times> sink" where
  "sink_Write s p =
     (case sfaults s of
        Some (k, e) # fs \<Rightarrow> ((min k (length p), Some e), \<lparr>sunk = sunk s @ take k p, sfaults = fs\<rparr>)
      | None # fs \<Rightarrow> ((length p, None), \<lparr>sunk = sunk s @ p, sfaults = fs\<rparr>)
      | [] \<Rightarrow> ((length p, None), \<lparr>sunk = sunk s @ p, sfaults = []\<rparr>))"

text \<open>\<^verbatim>\<open>(*os.File).Read\<close>: at most \<open>n\<close> bytes from the description's position, which moves on.\<close>

definition file_Read :: "nat option \<Rightarrow> nat \<Rightarrow> world \<Rightarrow> (byte list \<times> error option) \<times> world" where
  "file_Read fl n w =
     (case fl of None \<Rightarrow> (([], Some ErrInvalid), w)
      | Some fd \<Rightarrow>
         (case fds w fd of None \<Rightarrow> (([], Some ErrClosed), w)
          | Some d \<Rightarrow>
             if n = 0 then (([], None), w)
             else
               (let avail = take n (drop (pos (descs w d)) (content (descs w d))) in
                case next_fault w of
                  (Some (k, e), w') \<Rightarrow>
                    ((take k avail, Some e),
                     w'\<lparr>descs := (descs w')(d := (descs w' d)\<lparr>pos := pos (descs w' d) + length (take k avail)\<rparr>)\<rparr>)
                | (None, w') \<Rightarrow>
                    ((avail, if avail = [] then Some EOF else None),
                     w'\<lparr>descs := (descs w')(d := (descs w' d)\<lparr>pos := pos (descs w' d) + length avail\<rparr>)\<rparr>))))"

definition unread :: "nat option \<Rightarrow> world \<Rightarrow> nat" where
  "unread fl w =
     (case fl of None \<Rightarrow> 0
      | Some fd \<Rightarrow>
         (case fds w fd of None \<Rightarrow> 0
          | Some d \<Rightarrow> length (content (descs w d)) - pos (descs w d)))"

lemma file_Read_unread:
  "file_Read fl n w = ((d, None), w') \<Longrightarrow> 0 < n \<Longrightarrow> unread fl w' < unread fl w"
  by (auto simp: file_Read_def unread_def next_fault_def Let_def
           split: option.splits list.splits if_splits prod.splits)

text \<open>\<^verbatim>\<open>io.Copy(w, f.file)\<close>: the file from its position on, into the sink.\<close>

function copy_from_file :: "sink \<Rightarrow> nat option \<Rightarrow> world \<Rightarrow> nat \<Rightarrow> (nat \<times> error option) \<times> sink \<times> world" where
  "copy_from_file s fl w written =
     (case file_Read fl 32768 w of
        ((data, er), w') \<Rightarrow>
          (case (if data \<noteq> [] then sink_Write s data else ((0, None), s)) of
             ((nw, ew), s') \<Rightarrow>
               if ew \<noteq> None then ((written + nw, ew), s', w')
               else if length data \<noteq> nw then ((written + nw, Some ErrShortWrite), s', w')
               else (case er of
                       Some e \<Rightarrow> ((written + nw, if e = EOF then None else Some e), s', w')
                     | None \<Rightarrow> copy_from_file s' fl w' (written + nw))))"
  by pat_completeness auto
termination
  by (relation "measure (\<lambda>(s, fl, w, n). unread fl w)") (auto dest: file_Read_unread [OF sym])

declare copy_from_file.simps [simp del]

section \<open>ReadFrom and WriteTo\<close>

text \<open>
  The loop of \<^verbatim>\<open>ReadFrom\<close> that fills the memory region. It works on the slice
  \<^verbatim>\<open>f.buf\<close>. It leaves by \<^verbatim>\<open>return tot, err\<close>, by \<^verbatim>\<open>break\<close> or by a panic of a
  slice expression; it may also run forever, which is the value \<open>None\<close>. The window
  given to the reader is \<^verbatim>\<open>f.buf[len(f.buf) : cap(f.buf)-len(f.buf)]\<close>, as the source
  has it.
\<close>

datatype fill_exit = Return nat "error option" | Break | Fault panic

partial_function (option) fill :: "slice \<Rightarrow> reader \<Rightarrow> nat \<Rightarrow> (fill_exit \<times> slice \<times> reader) option" where
  "fill s r tot =
     (let lo = int (len s); hi = int (length (arr s)) - int (len s) in
      if \<not> (0 \<le> lo \<and> lo \<le> hi \<and> hi \<le> int (length (arr s))) then Some (Fault SliceBounds, s, r)
      else
        (case reader_Read r (nat hi - nat lo) of
           ((data, er), r') \<Rightarrow>
             (case reslice (store_at s (nat lo) (nat hi) data) (int (len s) + int (length data)) of
                Inl pn \<Rightarrow> Some (Fault pn, store_at s (nat lo) (nat hi) data, r')
              | Inr s' \<Rightarrow>
                  (case er of
                     Some e \<Rightarrow> Some (Return (tot + length data) (if e = EOF then None else Some e), s', r')
                   | None \<Rightarrow>
                       if len s' = length (arr s') then Some (Break, s', r')
                       else fill s' r' (tot + length data)))))"

definition ReadFrom :: "Filebuf \<Rightarrow> reader \<Rightarrow> world \<Rightarrow>
    ((nat \<times> error option) outcome \<times> Filebuf \<times> reader \<times> world) option" where
  "ReadFrom f r w =
     (if filep f \<noteq> None then
        (case copy_to_file (filep f) r w 0 of (res, r', w') \<Rightarrow> Some (Ret res, f, r', w'))
      else if MaxBufSize f = 0 then
        (case buffer_ReadFrom r [] of
           ((b, err), r') \<Rightarrow> Some (Ret (length b, err), f\<lparr>buf := append_bytes (buf f) b\<rparr>, r', w))
      else
        (case (case buf f of None \<Rightarrow> make_bytes (MaxBufSize f) | Some s \<Rightarrow> Inr s) of
           Inl pn \<Rightarrow> Some (Panic pn, f, r, w)
         | Inr s \<Rightarrow>
            (case fill s r 0 of
               None \<Rightarrow> None
             | Some (Fault pn, s', r') \<Rightarrow> Some (Panic pn, f\<lparr>buf := Some s'\<rparr>, r', w)
             | Some (Return tot err, s', r') \<Rightarrow> Some (Ret (tot, err), f\<lparr>buf := Some s'\<rparr>, r', w)
             | Some (Break, s', r') \<Rightarrow>
                 (let f1 = f\<lparr>buf := Some s'\<rparr>; m = slen (buf f1) in
                  case moveToFile f1 w of
                    (Some e, f2, w') \<Rightarrow> Some (Ret (0, Some e), f2, r', w')
                  | (None, f2, w') \<Rightarrow>
                      (let f3 = f2\<lparr>buf := None\<rparr> in
                       case copy_to_file (filep f3) r' w' 0 of
                         ((n, err), r'', w'') \<Rightarrow> Some (Ret (n + m, err), f3, r'', w''))))))"

text \<open>\<^verbatim>\<open>f.buf[f.off:]\<close> in \<^verbatim>\<open>WriteTo\<close> panics unless \<^verbatim>\<open>0 <= f.off <= len(f.buf)\<close>.\<close>

definition WriteTo :: "Filebuf \<Rightarrow> sink \<Rightarrow> world \<Rightarrow>
    (nat \<times> error option) outcome \<times> Filebuf \<times> sink \<times> world" where
  "WriteTo f s w =
     (if filep f \<noteq> None then
        (case file_Seek (filep f) (off f) w of
           (Some e, w') \<Rightarrow> (Ret (0, Some (CannotSeek e)), f, s, w')
         | (None, w') \<Rightarrow>
             (case copy_from_file s (filep f) w' 0 of (res, s', w'') \<Rightarrow> (Ret res, f, s', w'')))
      else if 0 \<le> off f \<and> off f \<le> int (slen (buf f)) then
        (case sink_Write s (drop (nat (off f)) (sbytes (buf f))) of
           (res, s') \<Rightarrow> (Ret res, f, s', w))
      else (Panic SliceBounds, f, s, w))"

section \<open>Callers\<close>

text \<open>
  A caller that writes a list of chunks one after the other and stops at the first error
  or panic, as the loop of \<^verbatim>\<open>io.Copy\<close> does. It returns the total count.
\<close>

fun Write_all :: "Filebuf \<Rightarrow> byte list list \<Rightarrow> world \<Rightarrow> (nat \<times> error option) outcome \<times> Filebuf \<times> world" where
  "Write_all f [] w = (Ret (0, None), f, w)"
| "Write_all f (p # ps) w =
     (case Write f p w of
        (Panic pn, f', w') \<Rightarrow> (Panic pn, f', w')
      | (Ret (n, Some e), f', w') \<Rightarrow> (Ret (n, Some e), f', w')
      | (Ret (n, None), f', w') \<Rightarrow>
          (case Write_all f' ps w' of
             (Panic pn, f'', w'') \<Rightarrow> (Panic pn, f'', w'')
           | (Ret (m, e), f'', w'') \<Rightarrow> (Ret (n + m, e), f'', w'')))"

text \<open>The logical contents of a buffer: the bytes it holds, in memory or in its file.\<close>

definition stored :: "Filebuf \<Rightarrow> world \<Rightarrow> byte list" where
  "stored f w =
     (case filep f of
        None \<Rightarrow> sbytes (buf f)
      | Some fd \<Rightarrow> (case fds w fd of None \<Rightarrow> [] | Some d \<Rightarrow> content (descs w d)))"

text \<open>
  The memory region of a buffer of threshold \<open>T\<close> that only \<^verbatim>\<open>Write\<close> has touched: nil,
  or a slice of capacity \<open>T\<close>.
\<close>

definition mem_shape :: "int \<Rightarrow> slice option \<Rightarrow> bool" where
  "mem_shape T b = (case b of None \<Rightarrow> True | Some s \<Rightarrow> length (arr s) = nat T \<and> len s \<le> nat T)"

text \<open>
  A buffer of threshold \<open>T\<close> in the middle of being written, when no system call fails:
  either in memory, or in an open file whose position is at its end, the memory region
  cleared.
\<close>

definition sound_state :: "int \<Rightarrow> Filebuf \<Rightarrow> world \<Rightarrow> bool" where
  "sound_state T f w =
     (MaxBufSize f = T \<and>
      (case filep f of
         None \<Rightarrow> mem_shape T (buf f)
       | Some fd \<Rightarrow>
           buf f = None \<and> faults w = [] \<and>
           (case fds w fd of None \<Rightarrow> False
            | Some d \<Rightarrow> pos (descs w d) = length (content (descs w d)))))"

section \<open>Runs of operations\<close>

text \<open>
  One step of a caller: any method applied to a buffer, in any state of the operating
  system, with the error it reports. A panic and a method that does not fail report
  none. \<^verbatim>\<open>Clone\<close> gives two steps: the original goes on, or the clone does.
\<close>

definition result_error :: "(nat \<times> error option) outcome \<Rightarrow> error option" where
  "result_error r = (case r of Ret (n, e) \<Rightarrow> e | Panic pn \<Rightarrow> None)"

inductive step :: "Filebuf \<times> world \<Rightarrow> error option \<Rightarrow> Filebuf \<times> world \<Rightarrow> bool" where
  s_Write: "Write f p w = (r, f', w') \<Longrightarrow> step (f, w) (result_error r) (f', w')"
| s_Read: "Read f p w = (r, p', f', w') \<Longrightarrow> step (f, w) (result_error r) (f', w')"
| s_ReadAt: "ReadAt f p ps w = (r, p', f', w') \<Longrightarrow> step (f, w) (result_error r) (f', w')"
| s_ReadFrom: "ReadFrom f rd w = Some (r, f', rd', w') \<Longrightarrow> step (f, w) (result_error r) (f', w')"
| s_WriteTo: "WriteTo f s w = (r, f', s', w') \<Longrightarrow> step (f, w) (result_error r) (f', w')"
| s_Rewind: "Rewind f w = (e, f', w') \<Longrightarrow> step (f, w) e (f', w')"
| s_Close: "Close f w = (e, f', w') \<Longrightarrow> step (f, w) e (f', w')"
| s_Clone_original: "Clone f w = (Inr c, w') \<Longrightarrow> step (f, w) None (f, w')"
| s_Clone_failed: "Clone f w = (Inl e, w') \<Longrightarrow> step (f, w) (Some e) (f, w')"
| s_Clone_clone: "Clone f w = (Inr c, w') \<Longrightarrow> step (f, w) None (c, w')"

inductive run :: "Filebuf \<times> world \<Rightarrow> error option list \<Rightarrow> Filebuf \<times> world \<Rightarrow> bool" where
  run_Nil: "run s [] s"
| run_Cons: "step s e s' \<Longrightarrow> run s' es s'' \<Longrightarrow> run s (e # es) s''"

text \<open>The errors with which a promotion fails after the temporary file was created.\<close>

definition promotion_failed :: "error option \<Rightarrow> bool" where
  "promotion_failed e =
     (case e of Some (CannotDelete x) \<Rightarrow> True | Some (CannotCopy x) \<Rightarrow> True | _ \<Rightarrow> False)"

section \<open>States used in the statements\<close>

text \<open>An operating system with no temporary file open and no fault to come.\<close>

definition world0 :: world where
  "world0 = \<lparr>descs = (\<lambda>d. \<lparr>content = [], pos = 0\<rparr>), fds = (\<lambda>fd. None),
              nfd = 3, ndesc = 0, faults = []\<rparr>"

text \<open>Every slice the Go runtime builds has its length within its capacity.\<close>

definition slice_ok :: "slice option \<Rightarrow> bool" where
  "slice_ok b = (slen b \<le> scap b)"

text \<open>The next system call does not fail.\<close>

definition no_fault :: "world \<Rightarrow> bool" where
  "no_fault w = (fst (next_fault w) = None)"

text \<open>
  A buffer whose contents can be read back: its memory region is a slice as the runtime
  builds them, or its descriptor is open and no system call is going to fail.
\<close>

definition readable :: "Filebuf \<Rightarrow> world \<Rightarrow> bool" where
  "readable f w =
     (case filep f of
        None \<Rightarrow> slice_ok (buf f)
      | Some fd \<Rightarrow> fds w fd \<noteq> None \<and> faults w = [])"

text \<open>Two states of the operating system that differ at most in the faults to come.\<close>

definition same_files :: "world \<Rightarrow> world \<Rightarrow> bool" where
  "same_files w w' = (descs w' = descs w \<and> fds w' = fds w \<and> nfd w' = nfd w \<and> ndesc w' = ndesc w)"

text \<open>
  The state after \<^verbatim>\<open>New(1)\<close> and \<^verbatim>\<open>Write\<close> of the bytes 1, 2 when nothing fails: the
  buffer is file-backed on descriptor 3.
\<close>

definition buffer12 :: Filebuf where
  "buffer12 = (New 1)\<lparr>filep := Some 3\<rparr>"

definition world12 :: world where
  "world12 = world0\<lparr>descs := (descs world0)(0 := \<lparr>content = [1, 2], pos = 2\<rparr>),
                    fds := [3 \<mapsto> 0], nfd := 4, ndesc := 1\<rparr>"

section \<open>Readers of a buffer\<close>

text \<open>
  A caller that calls \<^verbatim>\<open>Read\<close> once for each of a list of destinations, whatever
  \<^verbatim>\<open>Read\<close> returns, and stops only at a panic.
\<close>

fun Read_seq :: "Filebuf \<Rightarrow> byte list list \<Rightarrow> world \<Rightarrow> Filebuf \<times> world" where
  "Read_seq f [] w = (f, w)"
| "Read_seq f (q # qs) w =
     (case Read f q w of
        (Panic pn, q', f', w') \<Rightarrow> (f', w')
      | (Ret r, q', f', w') \<Rightarrow> Read_seq f' qs w')"

text \<open>
  A caller that reads to the end through a destination of \<open>k\<close> bytes, as \<^verbatim>\<open>io.ReadAll\<close>
  and \<^verbatim>\<open>io.Copy\<close> do: the bytes of each call are kept, then \<^verbatim>\<open>io.EOF\<close> ends the loop
  without error and any other error ends it with that error. With \<open>k = 0\<close> the loop
  may run forever, which is the value \<open>None\<close>.
\<close>

partial_function (option) Read_all :: "Filebuf \<Rightarrow> nat \<Rightarrow> world \<Rightarrow> byte list \<Rightarrow>
    ((byte list \<times> error option) outcome \<times> Filebuf \<times> world) option" where
  "Read_all f k w acc =
     (case Read f (replicate k 0) w of
        (Panic pn, p', f', w') \<Rightarrow> Some (Panic pn, f', w')
      | (Ret (n, e), p', f', w') \<Rightarrow>
          (case e of
             Some err \<Rightarrow> Some (Ret (acc @ take n p', if err = EOF then None else Some err), f', w')
           | None \<Rightarrow> Read_all f' k w' (acc @ take n p')))"

section \<open>Properties\<close>

text \<open>The example state is the one that \<^verbatim>\<open>Write\<close> produces.\<close>

lemma state12: "Write (New 1) [1, 2] world0 = (Ret (2, None), buffer12, world12)"
  by (simp add: Write_def New_def world0_def buffer12_def world12_def slen_def sbytes_def
        moveToFile_def TempFile_def Remove_def file_Write_def next_fault_def write_at_def
        numeral_2_eq_2)

text \<open>
  C3 (zero threshold means memory only). The claim: with threshold zero, \<^verbatim>\<open>Write\<close> of any
  input appends it to the memory region, creates no file, returns \<^verbatim>\<open>(len(input), nil)\<close>
  and stays within slice bounds. The code does not: on a fresh buffer with
  \<^verbatim>\<open>MaxBufSize = 0\<close> the array is made with capacity 0, and extending the slice by the
  length of any input that is not empty panics, in every state of the operating system.
\<close>

theorem Write_zero_threshold_panics:
  "fst (Write (New 0) (b # p) w) = Panic SliceBounds"
  by (simp add: Write_def New_def appendBuffer_def make_bytes_def reslice_def slen_def)


subsection \<open>Reading\<close>

text \<open>
  C7 (\<^verbatim>\<open>ReadAt\<close> frame property). For every buffer, destination and position,
  \<^verbatim>\<open>ReadAt\<close> gives the result (count and error, or the panic) and the destination
  bytes that \<^verbatim>\<open>Read\<close> gives with the read cursor set to that position, and whenever
  \<^verbatim>\<open>ReadAt\<close> returns, with or without an error, the receiver is as it was before the
  call: the cursor has its earlier value and no other field has changed.
\<close>

theorem ReadAt_frame:
  "fst (ReadAt f p ps w) = fst (Read (f\<lparr>off := ps\<rparr>) p w) \<and>
   fst (snd (ReadAt f p ps w)) = fst (snd (Read (f\<lparr>off := ps\<rparr>) p w)) \<and>
   (\<forall>r. fst (ReadAt f p ps w) = Ret r \<longrightarrow> fst (snd (snd (ReadAt f p ps w))) = f)"
  by (cases f) (auto simp add: ReadAt_def Read_def Let_def split: prod.splits outcome.splits if_splits)

text \<open>An instance: reading one byte at position 1 while the cursor is at 2.\<close>

theorem ReadAt_frame_witness:
  "fst (ReadAt ((New 4)\<lparr>buf := Some \<lparr>arr = [1, 2, 0, 0], len = 2\<rparr>, off := 2\<rparr>) [0] 1 world0) = Ret (1, None) \<and>
   fst (snd (ReadAt ((New 4)\<lparr>buf := Some \<lparr>arr = [1, 2, 0, 0], len = 2\<rparr>, off := 2\<rparr>) [0] 1 world0)) = [2] \<and>
   off (fst (snd (snd (ReadAt ((New 4)\<lparr>buf := Some \<lparr>arr = [1, 2, 0, 0], len = 2\<rparr>, off := 2\<rparr>) [0] 1 world0)))) = 2"
proof -
  let ?f = "(New 4)\<lparr>buf := Some \<lparr>arr = [1, 2, 0, 0], len = 2\<rparr>, off := 2\<rparr>"
  have r: "Read (?f\<lparr>off := 1\<rparr>) [0] world0 = (Ret (1, None), [2], ?f, world0)"
    by (simp add: Read_def New_def copyBuffer_def subslice_def slen_def scap_def copy_bytes_def Let_def)
  from ReadAt_frame [of ?f "[0]" 1 world0] r show ?thesis
    by (simp add: New_def)
qed

text \<open>
  Helper lemmas: what \<^verbatim>\<open>Read\<close> returns on a memory-backed and on a file-backed buffer.
\<close>

lemma Read_mem:
  assumes "filep f = None" "0 \<le> off f" "slice_ok (buf f)"
  shows "fst (Read f p w) = Ret (min (length p) (slen (buf f) - nat (off f)),
            if int (slen (buf f)) \<le> off f then Some EOF else None)"
proof (cases "int (slen (buf f)) \<le> off f")
  case True
  with assms show ?thesis by (simp add: Read_def)
next
  case False
  with assms show ?thesis
    by (simp add: Read_def copyBuffer_def subslice_def slice_ok_def Let_def) linarith
qed

lemma Read_file:
  assumes "filep f = Some fd" "fds w fd = Some d" "0 \<le> off f" "no_fault w"
  shows "fst (Read f p w) = Ret (min (length p) (length (content (descs w d)) - nat (off f)),
            if length (content (descs w d)) - nat (off f) < length p then Some EOF else None)"
  using assms
  by (auto simp add: Read_def file_ReadAt_def no_fault_def Let_def min_def
       split: option.splits prod.splits)

text \<open>
  C6 (end of stream), the claim as stated: \<^verbatim>\<open>Read\<close> never pairs end-of-stream with
  data. It fails on a file-backed buffer: with two bytes left and a destination of
  four, \<^verbatim>\<open>Read\<close> returns \<^verbatim>\<open>2, io.EOF\<close>, because \<^verbatim>\<open>(*os.File).ReadAt\<close> does.
\<close>

theorem Read_eof_with_data:
  "fst (Read buffer12 [0, 0, 0, 0] world12) = Ret (2, Some EOF)"
  by (simp add: Read_def buffer12_def world12_def New_def world0_def file_ReadAt_def
        next_fault_def Let_def)

text \<open>
  C6 as amended. On a memory-backed buffer (cursor not negative) \<^verbatim>\<open>Read\<close> copies
  \<open>min (len p) (len buf - off)\<close> bytes and reports end-of-stream exactly when the cursor
  is at or beyond the length, hence with zero bytes; when it copies a byte it returns no
  error. On a file-backed buffer whose descriptor is open, when the read does not fail,
  it copies \<open>min (len p) (size - off)\<close> bytes and reports end-of-stream exactly when
  fewer bytes were left than the destination holds: together with the last bytes if
  there are some, and never for an empty destination.
\<close>

theorem Read_end_of_stream:
  "(filep f = None \<and> 0 \<le> off f \<and> slice_ok (buf f) \<longrightarrow>
      fst (Read f p w) = Ret (min (length p) (slen (buf f) - nat (off f)),
                              if int (slen (buf f)) \<le> off f then Some EOF else None)) \<and>
   (filep f = Some fd \<and> fds w fd = Some d \<and> 0 \<le> off f \<and> no_fault w \<longrightarrow>
      fst (Read f p w) = Ret (min (length p) (length (content (descs w d)) - nat (off f)),
                              if length (content (descs w d)) - nat (off f) < length p then Some EOF else None))"
  using Read_mem [of f p w] Read_file [of f fd w d p] by blast

text \<open>
  Instances: a memory-backed buffer at its end and before it, and a file-backed buffer
  one byte before its end read into a destination of two, and at its end read into an
  empty destination.
\<close>

theorem Read_end_of_stream_witness:
  "fst (Read ((New 4)\<lparr>buf := Some \<lparr>arr = [1, 2, 0, 0], len = 2\<rparr>, off := 2\<rparr>) [0] world0)
     = Ret (0, Some EOF) \<and>
   fst (Read ((New 4)\<lparr>buf := Some \<lparr>arr = [1, 2, 0, 0], len = 2\<rparr>, off := 1\<rparr>) [0, 0] world0)
     = Ret (1, None) \<and>
   fst (Read (buffer12\<lparr>off := 1\<rparr>) [0, 0] world12) = Ret (1, Some EOF) \<and>
   fst (Read (buffer12\<lparr>off := 2\<rparr>) [] world12) = Ret (0, None)"
proof -
  let ?m = "(New 4)\<lparr>buf := Some \<lparr>arr = [1, 2, 0, 0], len = 2\<rparr>\<rparr>"
  have a: "fst (Read (?m\<lparr>off := 2\<rparr>) [0] world0) = Ret (0, Some EOF)"
    using Read_end_of_stream [where f = "?m\<lparr>off := 2\<rparr>" and p = "[0]" and w = world0]
    by (simp add: New_def slice_ok_def slen_def scap_def)
  have b: "fst (Read (?m\<lparr>off := 1\<rparr>) [0, 0] world0) = Ret (1, None)"
    using Read_end_of_stream [where f = "?m\<lparr>off := 1\<rparr>" and p = "[0, 0]" and w = world0]
    by (simp add: New_def slice_ok_def slen_def scap_def)
  have c: "fst (Read (buffer12\<lparr>off := 1\<rparr>) [0, 0] world12) = Ret (1, Some EOF)"
    using Read_end_of_stream [where f = "buffer12\<lparr>off := 1\<rparr>" and p = "[0, 0]" and w = world12
        and fd = 3 and d = 0]
    by (simp add: buffer12_def world12_def New_def world0_def no_fault_def next_fault_def)
  have d: "fst (Read (buffer12\<lparr>off := 2\<rparr>) [] world12) = Ret (0, None)"
    using Read_end_of_stream [where f = "buffer12\<lparr>off := 2\<rparr>" and p = "[]" and w = world12
        and fd = 3 and d = 0]
    by (simp add: buffer12_def world12_def New_def world0_def no_fault_def next_fault_def)
  from a b c d show ?thesis by simp
qed

subsection \<open>The fill loop of ReadFrom\<close>

text \<open>
  The window \<^verbatim>\<open>f.buf[len : cap-len]\<close> has its bounds crossed as soon as the region is
  more than half full, and is empty when it is exactly half full: then a reader that
  has bytes left is asked for none, returns \<^verbatim>\<open>0, nil\<close>, and the loop makes no progress.
\<close>

lemma fill_window_panics:
  "int (length (arr s)) < 2 * int (len s) \<Longrightarrow> fill s r tot = Some (Fault SliceBounds, s, r)"
  by (subst fill.simps) (simp add: Let_def)

lemma fill_stuck:
  assumes "2 * len s = length (arr s)" "0 < len s" "bs \<noteq> []"
  shows "fill s ((bs, e) # rest) tot = None"
proof (rule ccontr)
  assume "fill s ((bs, e) # rest) tot \<noteq> None"
  then obtain y where y: "fill s ((bs, e) # rest) tot = Some y" by blast
  have "s \<noteq> s \<or> (bs, e) # rest \<noteq> (bs, e) # rest"
  proof (rule fill.raw_induct
      [where P = "\<lambda>s' r' tot' y'. s' \<noteq> s \<or> r' \<noteq> (bs, e) # rest", OF _ y])
    fix fill' s' r' tot' y'
    assume IH: "\<And>s'' r'' tot'' y''. fill' s'' r'' tot'' = Some y'' \<Longrightarrow> s'' \<noteq> s \<or> r'' \<noteq> (bs, e) # rest"
      and body: "(let lo = int (len s'); hi = int (length (arr s')) - int (len s')
         in if \<not> (0 \<le> lo \<and> lo \<le> hi \<and> hi \<le> int (length (arr s')))
            then Some (Fault SliceBounds, s', r')
            else case reader_Read r' (nat hi - nat lo) of
                 ((data, er), r'') \<Rightarrow>
                   case reslice (store_at s' (nat lo) (nat hi) data)
                         (int (len s') + int (length data)) of
                   Inl pn \<Rightarrow> Some (Fault pn, store_at s' (nat lo) (nat hi) data, r'')
                   | Inr s'' \<Rightarrow>
                       case er of
                       None \<Rightarrow>
                         if len s'' = length (arr s'') then Some (Break, s'', r'')
                         else fill' s'' r'' (tot' + length data)
                       | Some e \<Rightarrow>
                           Some (Return (tot' + length data) (if e = EOF then None else Some e), s'', r'')) =
        Some y'"
    show "s' \<noteq> s \<or> r' \<noteq> (bs, e) # rest"
    proof (rule ccontr)
      assume "\<not> (s' \<noteq> s \<or> r' \<noteq> (bs, e) # rest)"
      then have eq: "s' = s" "r' = (bs, e) # rest" by simp_all
      from body assms have "fill' s ((bs, e) # rest) tot' = Some y'"
        unfolding eq by (simp add: Let_def store_at_def reslice_def split: if_splits)
      with IH show False by blast
    qed
  qed
  then show False by simp
qed

text \<open>
  C10 (fill-loop safety). The claim: for every positive threshold and every source with
  partial reads, the slice expressions of the fill loop stay in bounds and the loop
  ends once the region is full. The code does neither. With threshold 4 and a source
  that hands out 3 bytes and then 2, the second window is \<^verbatim>\<open>f.buf[3:1]\<close> and
  \<^verbatim>\<open>ReadFrom\<close> panics; with threshold 2 and a source that hands out 1 byte and then 2,
  the second window is the empty \<^verbatim>\<open>f.buf[1:1]\<close> and \<^verbatim>\<open>ReadFrom\<close> never returns.
\<close>

theorem ReadFrom_fill_loop_unsafe:
  "map_option fst (ReadFrom (New 4) [([1, 2, 3], None), ([4, 5], None)] w) = Some (Panic SliceBounds) \<and>
   ReadFrom (New 2) [([1], None), ([2, 3], None)] w = None"
proof -
  have a: "fill \<lparr>arr = [0, 0, 0, 0], len = 0\<rparr> [([1, 2, 3], None), ([4, 5], None)] 0
        = Some (Fault SliceBounds, \<lparr>arr = [1, 2, 3, 0], len = 3\<rparr>, [([4, 5], None)])"
    by (subst fill.simps) (simp add: Let_def store_at_def reslice_def fill_window_panics)
  have b: "fill \<lparr>arr = [0, 0], len = 0\<rparr> [([1], None), ([2, 3], None)] 0 = None"
    by (subst fill.simps) (simp add: Let_def store_at_def reslice_def fill_stuck)
  have r4: "replicate 4 (0::byte) = [0, 0, 0, 0]" by (simp add: numeral_eq_Suc)
  have r2: "replicate 2 (0::byte) = [0, 0]" by (simp add: numeral_eq_Suc)
  show ?thesis
    by (simp add: ReadFrom_def New_def make_bytes_def a b r4 r2)
qed

text \<open>
  C9 (fill, then promote). The claim: for every positive threshold and every source,
  \<^verbatim>\<open>ReadFrom\<close> fills the memory region up to its capacity, promotes when the source has
  more, streams the rest into the file and returns the sum of both counts. The code
  does not fill the region: after \<^verbatim>\<open>Write\<close> of one byte into a buffer of threshold 4, a
  source of six bytes that always fills the room it is given gets the window
  \<^verbatim>\<open>f.buf[1:3]\<close>, then \<^verbatim>\<open>f.buf[3:1]\<close>, and \<^verbatim>\<open>ReadFrom\<close> panics with three bytes in
  memory, instead of returning 6 from a file-backed buffer. (On a fresh buffer whose
  first read fills the region at once the claim holds: lemma
  \<open>ReadFrom_fill_then_promote\<close> below.)
\<close>

theorem ReadFrom_after_Write_panics:
  "fst (Write (New 4) [9] w) = Ret (1, None) \<and>
   map_option fst (ReadFrom (fst (snd (Write (New 4) [9] w))) [([1, 2, 3, 4, 5, 6], None)] w)
     = Some (Panic SliceBounds)"
proof -
  have r4: "replicate 4 (0::byte) = [0, 0, 0, 0]" by (simp add: numeral_eq_Suc)
  have wr: "Write (New 4) [9] w = (Ret (1, None), (New 4)\<lparr>buf := Some \<lparr>arr = [9, 0, 0, 0], len = 1\<rparr>\<rparr>, w)"
    by (simp add: Write_def New_def slen_def appendBuffer_def make_bytes_def reslice_def store_at_def r4)
  have fl: "fill \<lparr>arr = [9, 0, 0, 0], len = Suc 0\<rparr> [([1, 2, 3, 4, 5, 6], None)] 0
        = Some (Fault SliceBounds, \<lparr>arr = [9, 1, 2, 0], len = 3\<rparr>, [([3, 4, 5, 6], None)])"
    by (subst fill.simps) (simp add: Let_def store_at_def reslice_def fill_window_panics)
  have rf: "map_option fst (ReadFrom ((New 4)\<lparr>buf := Some \<lparr>arr = [9, 0, 0, 0], len = 1\<rparr>\<rparr>) [([1, 2, 3, 4, 5, 6], None)] w)
     = Some (Panic SliceBounds)"
    unfolding ReadFrom_def by (simp add: New_def fl)
  show ?thesis
    unfolding wr using rf by simp
qed

subsection \<open>Promotion\<close>

text \<open>\<^verbatim>\<open>moveToFile\<close> changes the handle only, and leaves it nil only when no file was created.\<close>

lemma moveToFile_frame:
  "moveToFile f w = (r, f', w') \<Longrightarrow> f' = f\<lparr>filep := filep f'\<rparr>"
  by (cases f) (auto simp add: moveToFile_def Let_def split: prod.splits sum.splits option.splits if_splits)

lemma moveToFile_handle:
  "moveToFile f w = (r, f', w') \<Longrightarrow> (filep f' = None) = (\<exists>e. r = Some (CannotOpen e))"
  by (auto simp add: moveToFile_def Let_def split: prod.splits sum.splits option.splits if_splits)

text \<open>
  C4 (promotion atomicity), the claim as stated: when the promotion triggered by a
  \<^verbatim>\<open>Write\<close> fails, the buffer is still in the in-memory representation. It fails when
  removing the name of the temporary file fails: \<^verbatim>\<open>Write\<close> returns the error with the
  handle of the new file set and the two earlier bytes still in the memory region.
\<close>

theorem Write_failed_unlink_keeps_file:
  "fst (Write (fst (snd (Write (New 2) [1, 2] world0))) [3] (world0\<lparr>faults := [None, Some (0, Errno 5)]\<rparr>))
     = Ret (0, Some (CannotDelete (Errno 5))) \<and>
   filep (fst (snd (Write (fst (snd (Write (New 2) [1, 2] world0))) [3] (world0\<lparr>faults := [None, Some (0, Errno 5)]\<rparr>))))
     = Some 3 \<and>
   sbytes (buf (fst (snd (Write (fst (snd (Write (New 2) [1, 2] world0))) [3] (world0\<lparr>faults := [None, Some (0, Errno 5)]\<rparr>)))))
     = [1, 2]"
proof -
  let ?f = "fst (snd (Write (New 2) [1, 2] world0))"
  have r2: "replicate 2 (0::byte) = [0, 0]" by (simp add: numeral_eq_Suc)
  have f: "?f = (New 2)\<lparr>buf := Some \<lparr>arr = [1, 2], len = 2\<rparr>\<rparr>"
    by (simp add: Write_def New_def slen_def appendBuffer_def make_bytes_def reslice_def store_at_def r2)
  show ?thesis
    unfolding f
    by (simp add: Write_def New_def slen_def sbytes_def moveToFile_def TempFile_def Remove_def
          next_fault_def world0_def)
qed

text \<open>
  C4 as amended. When the promotion triggered by a \<^verbatim>\<open>Write\<close> on an in-memory buffer
  fails, \<^verbatim>\<open>Write\<close> returns 0 and the error, and the receiver differs from before at
  most in its file handle, so the memory region keeps its contents. The handle is
  still nil, and the buffer unchanged, exactly when creating the temporary file
  failed; after a failed unlink or copy the handle of the new file stays set.
\<close>

theorem Write_failed_promotion:
  assumes "filep f = None" "0 < MaxBufSize f" "MaxBufSize f < int (slen (buf f)) + int (length p)"
      and "fst (moveToFile f w) = Some e"
  shows "fst (Write f p w) = Ret (0, Some e) \<and>
         fst (snd (Write f p w)) = f\<lparr>filep := filep (fst (snd (Write f p w)))\<rparr> \<and>
         (filep (fst (snd (Write f p w))) = None) = (\<exists>e'. e = CannotOpen e')"
proof -
  obtain f' w' where m: "moveToFile f w = (Some e, f', w')"
    using assms(4) by (cases "moveToFile f w") auto
  from assms(1-3) m have wr: "Write f p w = (Ret (0, Some e), f', w')"
    by (simp add: Write_def)
  from moveToFile_frame [OF m] moveToFile_handle [OF m] assms(1) wr
  show ?thesis by simp
qed

text \<open>An instance: creating the temporary file fails, and the buffer is as before.\<close>

theorem Write_failed_promotion_witness:
  "fst (Write (fst (snd (Write (New 2) [1, 2] world0))) [3] (world0\<lparr>faults := [Some (0, Errno 24)]\<rparr>))
     = Ret (0, Some (CannotOpen (Errno 24))) \<and>
   fst (snd (Write (fst (snd (Write (New 2) [1, 2] world0))) [3] (world0\<lparr>faults := [Some (0, Errno 24)]\<rparr>)))
     = fst (snd (Write (New 2) [1, 2] world0))"
proof -
  let ?f = "fst (snd (Write (New 2) [1, 2] world0))"
  let ?w = "world0\<lparr>faults := [Some (0, Errno 24)]\<rparr>"
  have r2: "replicate 2 (0::byte) = [0, 0]" by (simp add: numeral_eq_Suc)
  have f: "?f = (New 2)\<lparr>buf := Some \<lparr>arr = [1, 2], len = 2\<rparr>\<rparr>"
    by (simp add: Write_def New_def slen_def appendBuffer_def make_bytes_def reslice_def store_at_def r2)
  have m: "fst (moveToFile ?f ?w) = Some (CannotOpen (Errno 24))"
    unfolding f by (simp add: moveToFile_def TempFile_def next_fault_def world0_def New_def)
  have h: "filep ?f = None" "0 < MaxBufSize ?f" "MaxBufSize ?f < int (slen (buf ?f)) + int (length [3::byte])"
    unfolding f by (simp_all add: New_def slen_def)
  from Write_failed_promotion [OF h m] show ?thesis
    unfolding f by (auto simp add: New_def)
qed

subsection \<open>One representation at a time\<close>

text \<open>What each method does to the file handle and to the memory region.\<close>

lemma moveToFile_error_kind:
  "moveToFile f w = (Some e, f', w') \<Longrightarrow> filep f' \<noteq> None \<Longrightarrow> promotion_failed (Some e)"
  by (auto simp add: moveToFile_def Let_def promotion_failed_def
        split: prod.splits sum.splits option.splits if_splits)

lemma Read_keeps: "Read f p w = (r, p', f', w') \<Longrightarrow> filep f' = filep f \<and> buf f' = buf f"
  by (auto simp add: Read_def split: if_splits prod.splits outcome.splits)

lemma ReadAt_keeps: "ReadAt f p ps w = (r, p', f', w') \<Longrightarrow> filep f' = filep f \<and> buf f' = buf f"
proof -
  assume a: "ReadAt f p ps w = (r, p', f', w')"
  obtain r1 p1 f1 w1 where rd: "Read (f\<lparr>off := ps\<rparr>) p w = (r1, p1, f1, w1)"
    by (cases "Read (f\<lparr>off := ps\<rparr>) p w") auto
  from Read_keeps [OF rd] have "filep f1 = filep f \<and> buf f1 = buf f" by simp
  with a rd show ?thesis
    by (cases r1) (auto simp add: ReadAt_def Let_def)
qed

lemma Rewind_keeps: "Rewind f w = (e, f', w') \<Longrightarrow> filep f' = filep f \<and> buf f' = buf f"
  by (auto simp add: Rewind_def Let_def split: if_splits prod.splits option.splits)

lemma WriteTo_keeps: "WriteTo f s w = (r, f', s', w') \<Longrightarrow> f' = f"
  by (auto simp add: WriteTo_def split: if_splits prod.splits option.splits)

lemma Close_keeps:
  "Close f w = (e, f', w') \<Longrightarrow> filep f' = filep f \<and> (filep f \<noteq> None \<longrightarrow> buf f' = buf f)"
  by (auto simp add: Close_def split: if_splits prod.splits)

lemma Clone_keeps:
  "Clone f w = (Inr c, w') \<Longrightarrow> buf c = buf f \<and> (filep c = None) = (filep f = None)"
  by (auto simp add: Clone_def Let_def split: option.splits prod.splits sum.splits)

lemma Write_file_keeps: "filep f \<noteq> None \<Longrightarrow> Write f p w = (r, f', w') \<Longrightarrow> f' = f"
  by (auto simp add: Write_def split: prod.splits)

lemma Write_mem_keeps:
  assumes "filep f = None" "Write f p w = (r, f', w')" "\<not> promotion_failed (result_error r)"
    "filep f' \<noteq> None"
  shows "buf f' = None"
proof (cases "MaxBufSize f > 0 \<and> int (slen (buf f)) + int (length p) > MaxBufSize f")
  case True
  obtain e f1 w1 where m: "moveToFile f w = (e, f1, w1)" by (cases "moveToFile f w") auto
  show ?thesis
  proof (cases e)
    case None
    with assms True m show ?thesis by (auto simp add: Write_def Let_def split: prod.splits)
  next
    case (Some x)
    with assms True m have "r = Ret (0, Some x)" "f' = f1" by (auto simp add: Write_def)
    with assms moveToFile_error_kind [of f w x f1 w1] m Some show ?thesis
      by (simp add: result_error_def)
  qed
next
  case False
  with assms(1,2) have "filep f' = None"
    by (auto simp add: Write_def appendBuffer_def Let_def split: prod.splits option.splits sum.splits if_splits)
  with assms(4) show ?thesis by simp
qed

lemma ReadFrom_file_keeps: "filep f \<noteq> None \<Longrightarrow> ReadFrom f rd w = Some (r, f', rd', w') \<Longrightarrow> f' = f"
  by (auto simp add: ReadFrom_def split: prod.splits)


lemma ReadFrom_fill_unfold:
  assumes "filep f = None" "MaxBufSize f \<noteq> 0"
    "(case buf f of None \<Rightarrow> make_bytes (MaxBufSize f) | Some s \<Rightarrow> Inr s) = Inr s"
    "fill s rd 0 = Some (ex, s', r')"
  shows "ReadFrom f rd w =
     (case ex of
        Fault pn \<Rightarrow> Some (Panic pn, f\<lparr>buf := Some s'\<rparr>, r', w)
      | Return tot err \<Rightarrow> Some (Ret (tot, err), f\<lparr>buf := Some s'\<rparr>, r', w)
      | Break \<Rightarrow>
          (case moveToFile (f\<lparr>buf := Some s'\<rparr>) w of
             (Some e, f2, w') \<Rightarrow> Some (Ret (0, Some e), f2, r', w')
           | (None, f2, w') \<Rightarrow>
               (case copy_to_file (filep f2) r' w' 0 of
                  ((n, err), r'', w'') \<Rightarrow> Some (Ret (n + len s', err), f2\<lparr>buf := None\<rparr>, r'', w''))))"
  unfolding ReadFrom_def using assms
  by (simp add: Let_def slen_def split: fill_exit.splits prod.splits option.splits)

lemma ReadFrom_mem_keeps:
  assumes "filep f = None" "ReadFrom f rd w = Some (r, f', rd', w')"
    "\<not> promotion_failed (result_error r)" "filep f' \<noteq> None"
  shows "buf f' = None"
proof (cases "MaxBufSize f = 0")
  case True
  with assms(1,2) have "filep f' = None" by (auto simp add: ReadFrom_def split: prod.splits)
  with assms(4) show ?thesis by simp
next
  case False
  show ?thesis
  proof (cases "case buf f of None \<Rightarrow> make_bytes (MaxBufSize f) | Some s \<Rightarrow> Inr s")
    case (Inl pn)
    with assms(1) False have "ReadFrom f rd w = Some (Panic pn, f, rd, w)"
      unfolding ReadFrom_def by simp
    with assms(2) have "f' = f" by simp
    with assms(1,4) show ?thesis by simp
  next
    case (Inr s)
    show ?thesis
    proof (cases "fill s rd 0")
      case None
      with assms(1) False Inr have "ReadFrom f rd w = None" unfolding ReadFrom_def by simp
      with assms(2) show ?thesis by simp
    next
      case (Some x)
      then obtain ex s' r' where x: "fill s rd 0 = Some (ex, s', r')" by (cases x) auto
      note u = ReadFrom_fill_unfold [OF assms(1) False Inr x, of w]
      show ?thesis
      proof (cases ex)
        case (Return tot err)
        with u assms(2) have "f' = f\<lparr>buf := Some s'\<rparr>" by simp
        with assms(1,4) show ?thesis by simp
      next
        case (Fault pn)
        with u assms(2) have "f' = f\<lparr>buf := Some s'\<rparr>" by simp
        with assms(1,4) show ?thesis by simp
      next
        case Break
        obtain e f2 w2 where m: "moveToFile (f\<lparr>buf := Some s'\<rparr>) w = (e, f2, w2)"
          by (cases "moveToFile (f\<lparr>buf := Some s'\<rparr>) w") auto
        show ?thesis
        proof (cases e)
          case None
          with u assms(2) Break m show ?thesis
            by (auto split: prod.splits)
        next
          case (Some y)
          with u assms(2) Break m have "r = Ret (0, Some y)" "f' = f2"
            by auto
          with assms(3,4) moveToFile_error_kind [of "f\<lparr>buf := Some s'\<rparr>" w y f2 w2] m Some
          show ?thesis by (simp add: result_error_def)
        qed
      qed
    qed
  qed
qed

lemma step_monotone:
  assumes "step (f, w) e (f', w')" "filep f \<noteq> None"
  shows "filep f' \<noteq> None \<and> buf f' = buf f"
  using assms(1)
proof (cases rule: step.cases)
  case (s_Write p r)
  from Write_file_keeps [OF assms(2) s_Write(2)] assms(2) show ?thesis by simp
next
  case (s_Read p r p')
  from Read_keeps [OF s_Read(2)] assms(2) show ?thesis by simp
next
  case (s_ReadAt p ps r p')
  from ReadAt_keeps [OF s_ReadAt(2)] assms(2) show ?thesis by simp
next
  case (s_ReadFrom rd r rd')
  from ReadFrom_file_keeps [OF assms(2) s_ReadFrom(2)] assms(2) show ?thesis by simp
next
  case (s_WriteTo s r s')
  from WriteTo_keeps [OF s_WriteTo(2)] assms(2) show ?thesis by simp
next
  case s_Rewind
  from Rewind_keeps [OF s_Rewind] assms(2) show ?thesis by simp
next
  case s_Close
  from Close_keeps [OF s_Close] assms(2) show ?thesis by simp
next
  case (s_Clone_original c)
  with assms(2) show ?thesis by simp
next
  case (s_Clone_failed e')
  with assms(2) show ?thesis by simp
next
  case s_Clone_clone
  from Clone_keeps [OF s_Clone_clone(2)] assms(2) show ?thesis by simp
qed

lemma step_one_holds_data:
  assumes "step (f, w) e (f', w')" "filep f \<noteq> None \<longrightarrow> buf f = None" "\<not> promotion_failed e"
    "filep f' \<noteq> None"
  shows "buf f' = None"
proof (cases "filep f")
  case (Some fd)
  with step_monotone [OF assms(1)] assms(2) show ?thesis by simp
next
  case None
  from assms(1) show ?thesis
  proof (cases rule: step.cases)
    case (s_Write p r)
    with Write_mem_keeps [OF None s_Write(2)] assms(3,4) show ?thesis by simp
  next
    case (s_Read p r p')
    from Read_keeps [OF s_Read(2)] None assms(4) show ?thesis by simp
  next
    case (s_ReadAt p ps r p')
    from ReadAt_keeps [OF s_ReadAt(2)] None assms(4) show ?thesis by simp
  next
    case (s_ReadFrom rd r rd')
    with ReadFrom_mem_keeps [OF None s_ReadFrom(2)] assms(3,4) show ?thesis by simp
  next
    case (s_WriteTo s r s')
    from WriteTo_keeps [OF s_WriteTo(2)] None assms(4) show ?thesis by simp
  next
    case s_Rewind
    from Rewind_keeps [OF s_Rewind] None assms(4) show ?thesis by simp
  next
    case s_Close
    from Close_keeps [OF s_Close] None assms(4) show ?thesis by simp
  next
    case (s_Clone_original c)
    with None assms(4) show ?thesis by simp
  next
    case (s_Clone_failed e')
    with None assms(4) show ?thesis by simp
  next
    case s_Clone_clone
    from Clone_keeps [OF s_Clone_clone(2)] None assms(4) show ?thesis by simp
  qed
qed

lemma run_monotone:
  "run s es s' \<Longrightarrow> filep (fst s) \<noteq> None \<Longrightarrow> filep (fst s') \<noteq> None \<and> buf (fst s') = buf (fst s)"
proof (induction rule: run.induct)
  case (run_Nil s)
  then show ?case by simp
next
  case (run_Cons s e s' es s'')
  from step_monotone [of "fst s" "snd s" e "fst s'" "snd s'"] run_Cons.hyps(1) run_Cons.prems
  have "filep (fst s') \<noteq> None \<and> buf (fst s') = buf (fst s)" by simp
  with run_Cons.IH show ?case by simp
qed

lemma run_one_holds_data:
  "run s es s' \<Longrightarrow> filep (fst s) \<noteq> None \<longrightarrow> buf (fst s) = None \<Longrightarrow>
   \<forall>e \<in> set es. \<not> promotion_failed e \<Longrightarrow> filep (fst s') \<noteq> None \<longrightarrow> buf (fst s') = None"
proof (induction rule: run.induct)
  case (run_Nil s)
  then show ?case by simp
next
  case (run_Cons s e s' es s'')
  from step_one_holds_data [of "fst s" "snd s" e "fst s'" "snd s'"] run_Cons.hyps(1) run_Cons.prems
  have "filep (fst s') \<noteq> None \<longrightarrow> buf (fst s') = None" by simp
  with run_Cons.IH run_Cons.prems show ?case by simp
qed

text \<open>
  C5 (exactly one representation), the claim as stated: in every reachable state, also
  after operations that return errors, at most one of the memory region and the file
  handle holds data. It fails after a promotion that fails behind the creation of the
  file: \<^verbatim>\<open>ReadFrom\<close> on a fresh buffer of threshold 3 fills the region with three
  bytes, creates the temporary file, and the copy into it fails after two bytes.
  \<^verbatim>\<open>ReadFrom\<close> returns with the handle set, two bytes in the file and all three
  still in the memory region.
\<close>

theorem ReadFrom_failed_copy_both_hold_data:
  "map_option fst
     (ReadFrom (New 3) [([1, 2, 3, 4], None)] (world0\<lparr>faults := [None, None, Some (2, Errno 28)]\<rparr>))
     = Some (Ret (0, Some (CannotCopy (Errno 28)))) \<and>
   map_option (\<lambda>x. filep (fst (snd x)))
     (ReadFrom (New 3) [([1, 2, 3, 4], None)] (world0\<lparr>faults := [None, None, Some (2, Errno 28)]\<rparr>))
     = Some (Some 3) \<and>
   map_option (\<lambda>x. sbytes (buf (fst (snd x))))
     (ReadFrom (New 3) [([1, 2, 3, 4], None)] (world0\<lparr>faults := [None, None, Some (2, Errno 28)]\<rparr>))
     = Some [1, 2, 3] \<and>
   map_option (\<lambda>x. stored (fst (snd x)) (snd (snd (snd x))))
     (ReadFrom (New 3) [([1, 2, 3, 4], None)] (world0\<lparr>faults := [None, None, Some (2, Errno 28)]\<rparr>))
     = Some [1, 2]"
proof -
  let ?w = "world0\<lparr>faults := [None, None, Some (2, Errno 28)]\<rparr>"
  let ?f1 = "(New 3)\<lparr>buf := Some \<lparr>arr = [1, 2, 3], len = 3\<rparr>\<rparr>"
  define w1 where "w1 = snd (snd (moveToFile ?f1 ?w))"
  have r3: "replicate 3 (0::byte) = [0, 0, 0]" by (simp add: numeral_eq_Suc)
  have new: "filep (New 3) = None" "MaxBufSize (New 3) = 3" "buf (New 3) = None"
    by (simp_all add: New_def)
  have fl: "fill \<lparr>arr = [0, 0, 0], len = 0\<rparr> [([1, 2, 3, 4], None)] 0
        = Some (Break, \<lparr>arr = [1, 2, 3], len = 3\<rparr>, [([4], None)])"
    by (subst fill.simps) (simp add: Let_def store_at_def reslice_def)
  have m1: "fst (moveToFile ?f1 ?w) = Some (CannotCopy (Errno 28))"
    "fst (snd (moveToFile ?f1 ?w)) = ?f1\<lparr>filep := Some 3\<rparr>"
    by (simp_all add: New_def moveToFile_def TempFile_def Remove_def file_Write_def next_fault_def
          world0_def sbytes_def Let_def)
  then have mv: "moveToFile ?f1 ?w = (Some (CannotCopy (Errno 28)), ?f1\<lparr>filep := Some 3\<rparr>, w1)"
    by (simp add: w1_def prod_eq_iff)
  have st: "stored (?f1\<lparr>filep := Some 3\<rparr>) w1 = [1, 2]"
    unfolding w1_def
    by (simp add: New_def moveToFile_def TempFile_def Remove_def file_Write_def next_fault_def
          world0_def sbytes_def stored_def write_at_def Let_def)
  have "ReadFrom (New 3) [([1, 2, 3, 4], None)] ?w
      = Some (Ret (0, Some (CannotCopy (Errno 28))), ?f1\<lparr>filep := Some 3\<rparr>, [([4], None)], w1)"
    unfolding ReadFrom_def by (simp add: new make_bytes_def r3 fl Let_def mv)
  with st show ?thesis by (simp add: sbytes_def)
qed

text \<open>
  C5 as amended. Along every run of operations, whatever they return: once the file
  handle is set it stays set, and the memory region is not changed any more, so it is
  never repopulated and the transition is never reversed. And if at the start at most
  one of the two holds data, and no operation of the run reports a promotion that
  failed behind the creation of the file (the errors \<^verbatim>\<open>cannot delete\<close> and
  \<^verbatim>\<open>cannot copy\<close>), then at the end at most one of the two holds data: with the handle
  set, the memory region is nil.
\<close>

theorem one_representation:
  assumes "run (f, w) es (f', w')"
  shows "(filep f \<noteq> None \<longrightarrow> filep f' \<noteq> None \<and> buf f' = buf f) \<and>
         ((filep f \<noteq> None \<longrightarrow> buf f = None) \<and> (\<forall>e \<in> set es. \<not> promotion_failed e)
            \<longrightarrow> filep f' \<noteq> None \<longrightarrow> buf f' = None)"
  using run_monotone [OF assms] run_one_holds_data [OF assms] by simp


text \<open>An instance: the run of one \<^verbatim>\<open>Write\<close> that promotes a fresh buffer.\<close>

theorem one_representation_witness:
  "run (New 1, world0) [None]
     (fst (snd (Write (New 1) [1, 2] world0)), snd (snd (Write (New 1) [1, 2] world0))) \<and>
   filep (fst (snd (Write (New 1) [1, 2] world0))) = Some 3 \<and>
   buf (fst (snd (Write (New 1) [1, 2] world0))) = None"
proof -
  let ?r = "Write (New 1) [1, 2] world0"
  have res: "fst ?r = Ret (2, None)" and fp: "filep (fst (snd ?r)) = Some 3"
    by (simp_all add: Write_def New_def slen_def sbytes_def moveToFile_def TempFile_def Remove_def
          file_Write_def next_fault_def world0_def)
  have "step (New 1, world0) (result_error (fst ?r)) (fst (snd ?r), snd (snd ?r))"
    by (rule s_Write) simp
  then have "step (New 1, world0) None (fst (snd ?r), snd (snd ?r))"
    by (simp add: res result_error_def)
  then have r: "run (New 1, world0) [None] (fst (snd ?r), snd (snd ?r))"
    by (blast intro: run.intros)
  from one_representation [OF r] fp have "buf (fst (snd ?r)) = None"
    by (simp add: New_def promotion_failed_def)
  with r fp show ?thesis by simp
qed

subsection \<open>Writing up to and across the threshold\<close>

text \<open>
  One \<^verbatim>\<open>Write\<close> that fits, one that promotes, one into the file; then any number of
  them.
\<close>

lemma Write_mem_fits:
  assumes "0 < T" "MaxBufSize f = T" "filep f = None" "mem_shape T (buf f)"
    "int (slen (buf f)) + int (length p) \<le> T"
  shows "fst (Write f p w) = Ret (length p, None) \<and> snd (snd (Write f p w)) = w \<and>
         MaxBufSize (fst (snd (Write f p w))) = T \<and> filep (fst (snd (Write f p w))) = None \<and>
         mem_shape T (buf (fst (snd (Write f p w)))) \<and>
         sbytes (buf (fst (snd (Write f p w)))) = sbytes (buf f) @ p \<and>
         slen (buf (fst (snd (Write f p w)))) = slen (buf f) + length p \<and>
         off (fst (snd (Write f p w))) = off f"
proof (cases "buf f")
  case None
  with assms show ?thesis
    by (simp add: Write_def slen_def appendBuffer_def make_bytes_def reslice_def store_at_def
          mem_shape_def sbytes_def)
next
  case (Some s)
  from assms Some have le: "len s + length p \<le> nat T" "length (arr s) = nat T"
    by (simp_all add: slen_def mem_shape_def)
  then have n: "nat (int (len s) + int (length p)) = len s + length p" by simp
  from assms Some le show ?thesis
    by (simp add: Write_def slen_def appendBuffer_def reslice_def store_at_def
          mem_shape_def sbytes_def Let_def n)
qed

lemma Write_promotes:
  assumes "0 < T" "MaxBufSize f = T" "filep f = None" "faults w = []"
    "int (slen (buf f)) + int (length p) > T"
  shows "fst (Write f p w) = Ret (length p, None) \<and>
         sound_state T (fst (snd (Write f p w))) (snd (snd (Write f p w))) \<and>
         filep (fst (snd (Write f p w))) \<noteq> None \<and>
         stored (fst (snd (Write f p w))) (snd (snd (Write f p w))) = sbytes (buf f) @ p \<and>
         off (fst (snd (Write f p w))) = off f \<and>
         faults (snd (snd (Write f p w))) = []"
  using assms
  by (simp add: Write_def moveToFile_def TempFile_def Remove_def file_Write_def next_fault_def
        write_at_def sound_state_def stored_def Let_def)

lemma Write_file_appends:
  assumes "sound_state T f w" "filep f \<noteq> None"
  shows "fst (Write f p w) = Ret (length p, None) \<and> fst (snd (Write f p w)) = f \<and>
         sound_state T f (snd (snd (Write f p w))) \<and>
         stored f (snd (snd (Write f p w))) = stored f w @ p \<and>
         faults (snd (snd (Write f p w))) = []"
  using assms
  by (auto simp add: Write_def file_Write_def next_fault_def write_at_def sound_state_def stored_def
        split: option.splits)


lemma mem_stored_length:
  "filep f = None \<Longrightarrow> mem_shape T (buf f) \<Longrightarrow> length (stored f w) = slen (buf f)"
  by (auto simp add: stored_def mem_shape_def sbytes_def slen_def split: option.splits)

lemma mem_stored_le:
  "sound_state T f w \<Longrightarrow> filep f = None \<Longrightarrow> length (stored f w) \<le> nat T"
  by (auto simp add: sound_state_def stored_def mem_shape_def sbytes_def split: option.splits)

lemma mem_stored: "filep f = None \<Longrightarrow> stored f w = sbytes (buf f)"
  by (simp add: stored_def)

lemma Write_sound:
  assumes "0 < T" "sound_state T f w"
    "(filep f = None \<and> length (stored f w) + length p \<le> nat T) \<or> faults w = []"
  shows "fst (Write f p w) = Ret (length p, None) \<and>
         sound_state T (fst (snd (Write f p w))) (snd (snd (Write f p w))) \<and>
         stored (fst (snd (Write f p w))) (snd (snd (Write f p w))) = stored f w @ p \<and>
         off (fst (snd (Write f p w))) = off f \<and>
         (filep (fst (snd (Write f p w))) = None) =
            (filep f = None \<and> length (stored f w) + length p \<le> nat T) \<and>
         (filep (fst (snd (Write f p w))) = None \<longrightarrow> snd (snd (Write f p w)) = w) \<and>
         (faults w = [] \<longrightarrow> faults (snd (snd (Write f p w))) = [])"
proof (cases "filep f")
  case (Some fd)
  with assms(2) Write_file_appends [of T f w p] show ?thesis by simp
next
  case None
  with assms(2) have sh: "mem_shape T (buf f)" "MaxBufSize f = T" by (simp_all add: sound_state_def)
  note l = mem_stored_length [OF None sh(1), of w]
  show ?thesis
  proof (cases "length (stored f w) + length p \<le> nat T")
    case True
    with l assms(1) have "int (slen (buf f)) + int (length p) \<le> T" by simp
    from Write_mem_fits [OF assms(1) sh(2) None sh(1) this, of w] None True
    show ?thesis by (simp add: sound_state_def mem_stored)
  next
    case False
    with assms(3) have nf: "faults w = []" by simp
    from False l assms(1) have "int (slen (buf f)) + int (length p) > T" by simp
    from Write_promotes [OF assms(1) sh(2) None nf this] None False nf
    show ?thesis by (auto simp add: mem_stored)
  qed
qed

lemma Write_all_sound:
  assumes "0 < T" "sound_state T f w"
    "(filep f = None \<and> length (stored f w) + length (concat ps) \<le> nat T) \<or> faults w = []"
  shows "fst (Write_all f ps w) = Ret (length (concat ps), None) \<and>
         sound_state T (fst (snd (Write_all f ps w))) (snd (snd (Write_all f ps w))) \<and>
         stored (fst (snd (Write_all f ps w))) (snd (snd (Write_all f ps w))) = stored f w @ concat ps \<and>
         off (fst (snd (Write_all f ps w))) = off f \<and>
         (filep (fst (snd (Write_all f ps w))) = None) =
            (filep f = None \<and> length (stored f w) + length (concat ps) \<le> nat T) \<and>
         (filep (fst (snd (Write_all f ps w))) = None \<longrightarrow> snd (snd (Write_all f ps w)) = w) \<and>
         (faults w = [] \<longrightarrow> faults (snd (snd (Write_all f ps w))) = [])"
  using assms(2,3)
proof (induction ps arbitrary: f w)
  case Nil
  then show ?case by (auto simp add: mem_stored_le)
next
  case (Cons p ps)
  obtain r f1 w1 where wr: "Write f p w = (r, f1, w1)" by (cases "Write f p w") auto
  from Cons.prems(2) have pre: "(filep f = None \<and> length (stored f w) + length p \<le> nat T) \<or> faults w = []"
    by auto
  from Write_sound [OF assms(1) Cons.prems(1) pre] wr
  have s1: "r = Ret (length p, None)" "sound_state T f1 w1" "stored f1 w1 = stored f w @ p"
    "off f1 = off f"
    "(filep f1 = None) = (filep f = None \<and> length (stored f w) + length p \<le> nat T)"
    "filep f1 = None \<longrightarrow> w1 = w" "faults w = [] \<longrightarrow> faults w1 = []"
    by simp_all
  from Cons.prems(2) s1 have pre1:
    "(filep f1 = None \<and> length (stored f1 w1) + length (concat ps) \<le> nat T) \<or> faults w1 = []"
    by auto
  note ih = Cons.IH [OF s1(2) pre1]
  obtain r2 f2 w2 where wa: "Write_all f1 ps w1 = (r2, f2, w2)" by (cases "Write_all f1 ps w1") auto
  from wr wa s1(1) ih have all: "Write_all f (p # ps) w = (Ret (length p + length (concat ps), None), f2, w2)"
    by simp
  from ih wa s1 show ?case
    unfolding all by auto
qed


lemma Write_all_file_keeps:
  "filep f \<noteq> None \<Longrightarrow> filep (fst (snd (Write_all f ps w))) \<noteq> None"
proof (induction ps arbitrary: w)
  case Nil
  then show ?case by simp
next
  case (Cons p ps)
  obtain r f1 w1 where wr: "Write f p w = (r, f1, w1)" by (cases "Write f p w") auto
  from Write_file_keeps [OF Cons.prems wr] have f1: "f1 = f" .
  obtain r2 f2 w2 where wa: "Write_all f ps w1 = (r2, f2, w2)" by (cases "Write_all f ps w1") auto
  from Cons.IH [OF Cons.prems, of w1] wa have "filep f2 \<noteq> None" by simp
  with wr wa f1 Cons.prems show ?case
    by (auto split: outcome.splits option.splits prod.splits)
qed

lemma Write_all_after_file:
  assumes "Write f p w = (r, f1, w1)" "filep f1 \<noteq> None"
  shows "filep (fst (snd (Write_all f (p # ps) w))) \<noteq> None"
proof -
  obtain r2 f2 w2 where wa: "Write_all f1 ps w1 = (r2, f2, w2)" by (cases "Write_all f1 ps w1") auto
  from Write_all_file_keeps [OF assms(2), of ps w1] wa have "filep f2 \<noteq> None" by simp
  with assms wa show ?thesis
    by (auto split: outcome.splits option.splits prod.splits)
qed

lemma Write_all_crossing:
  assumes "0 < T"
  shows "MaxBufSize f = T \<Longrightarrow> filep f = None \<Longrightarrow> mem_shape T (buf f) \<Longrightarrow>
         nat T < slen (buf f) + length (concat ps) \<Longrightarrow>
         filep (fst (snd (Write_all f ps w))) \<noteq> None \<or>
         (\<exists>n e. fst (Write_all f ps w) = Ret (n, Some (CannotOpen e)))"
proof (induction ps arbitrary: f)
  case Nil
  then show ?case by (auto simp add: mem_shape_def slen_def split: option.splits)
next
  case (Cons p ps)
  show ?case
  proof (cases "int (slen (buf f)) + int (length p) \<le> T")
    case True
    note fit = Write_mem_fits [OF assms Cons.prems(1,2,3) True, of w]
    obtain r f1 w1 where wr: "Write f p w = (r, f1, w1)" by (cases "Write f p w") auto
    with fit have f1: "r = Ret (length p, None)" "w1 = w" "MaxBufSize f1 = T" "filep f1 = None"
      "mem_shape T (buf f1)" "slen (buf f1) = slen (buf f) + length p" by simp_all
    from f1(6) Cons.prems(4) have "nat T < slen (buf f1) + length (concat ps)" by simp
    from Cons.IH [OF f1(3,4,5) this] wr f1(1,2) show ?thesis
      by (auto split: outcome.splits option.splits prod.splits)
  next
    case False
    obtain e f1 w1 where m: "moveToFile f w = (e, f1, w1)" by (cases "moveToFile f w") auto
    show ?thesis
    proof (cases e)
      case (Some x)
      with False assms Cons.prems(1,2) m have wr: "Write f p w = (Ret (0, Some x), f1, w1)"
        by (simp add: Write_def)
      with moveToFile_handle [OF m] Some show ?thesis by auto
    next
      case None
      with moveToFile_handle [OF m] have h: "filep f1 \<noteq> None" by simp
      obtain r w2 where fw: "file_Write (filep f1) p w1 = (r, w2)"
        by (cases "file_Write (filep f1) p w1") auto
      with False assms Cons.prems(1,2) m None
      have wr: "Write f p w = (Ret r, f1\<lparr>buf := None\<rparr>, w2)"
        by (simp add: Write_def Let_def)
      from Write_all_after_file [OF wr] h show ?thesis by simp
    qed
  qed
qed

text \<open>
  C2 (threshold boundary). For every positive threshold \<open>T\<close> and every way of cutting
  the bytes into calls of \<^verbatim>\<open>Write\<close> on a fresh buffer: writing \<open>T\<close> bytes in total
  succeeds, leaves the buffer in memory holding these bytes and makes no system call at
  all (the operating system is as before, so no file is created); writing \<open>T + 1\<close>
  bytes in total makes the call that crosses the threshold promote: in every state of
  the operating system the buffer ends file-backed unless creating the temporary file
  failed and that error was returned, and when no system call fails all \<open>T + 1\<close> bytes
  are in the file and the memory region is nil.
\<close>

theorem threshold_boundary:
  assumes "0 < T"
  shows "(length (concat ps) = nat T \<longrightarrow>
            fst (Write_all (New T) ps w) = Ret (nat T, None) \<and>
            filep (fst (snd (Write_all (New T) ps w))) = None \<and>
            sbytes (buf (fst (snd (Write_all (New T) ps w)))) = concat ps \<and>
            snd (snd (Write_all (New T) ps w)) = w) \<and>
         (length (concat ps) = nat T + 1 \<longrightarrow>
            (filep (fst (snd (Write_all (New T) ps w))) \<noteq> None \<or>
             (\<exists>n e. fst (Write_all (New T) ps w) = Ret (n, Some (CannotOpen e)))) \<and>
            (faults w = [] \<longrightarrow>
               fst (Write_all (New T) ps w) = Ret (nat T + 1, None) \<and>
               filep (fst (snd (Write_all (New T) ps w))) \<noteq> None \<and>
               buf (fst (snd (Write_all (New T) ps w))) = None \<and>
               stored (fst (snd (Write_all (New T) ps w))) (snd (snd (Write_all (New T) ps w))) = concat ps))"
proof -
  have new: "sound_state T (New T) w" "filep (New T) = None" "stored (New T) w = []"
    "MaxBufSize (New T) = T" "mem_shape T (buf (New T))" "slen (buf (New T)) = 0"
    by (simp_all add: sound_state_def New_def mem_shape_def stored_def sbytes_def slen_def)
  have a: ?thesis if eq: "length (concat ps) = nat T"
  proof -
    from eq new have "(filep (New T) = None \<and> length (stored (New T) w) + length (concat ps) \<le> nat T)
        \<or> faults w = []" by simp
    note s = Write_all_sound [OF assms new(1) this]
    from s eq new(2,3) have fp: "filep (fst (snd (Write_all (New T) ps w))) = None" by simp
    from mem_stored [OF fp, of "snd (snd (Write_all (New T) ps w))"] s new(3)
    have "sbytes (buf (fst (snd (Write_all (New T) ps w)))) = concat ps" by simp
    with s fp eq show ?thesis by simp
  qed
  have b: ?thesis if eq: "length (concat ps) = nat T + 1"
  proof -
    from eq new(6) have "nat T < slen (buf (New T)) + length (concat ps)" by simp
    note c = Write_all_crossing [OF assms new(4,2,5) this, of w]
    have d: "fst (Write_all (New T) ps w) = Ret (nat T + 1, None) \<and>
             filep (fst (snd (Write_all (New T) ps w))) \<noteq> None \<and>
             buf (fst (snd (Write_all (New T) ps w))) = None \<and>
             stored (fst (snd (Write_all (New T) ps w))) (snd (snd (Write_all (New T) ps w))) = concat ps"
      if nf: "faults w = []"
    proof -
      from nf have "(filep (New T) = None \<and> length (stored (New T) w) + length (concat ps) \<le> nat T)
          \<or> faults w = []" by simp
      note s = Write_all_sound [OF assms new(1) this]
      from s eq new(2,3) have fp: "filep (fst (snd (Write_all (New T) ps w))) \<noteq> None" by simp
      with s have "buf (fst (snd (Write_all (New T) ps w))) = None"
        by (auto simp add: sound_state_def)
      with s fp eq new(3) show ?thesis by simp
    qed
    from c d eq assms show ?thesis by simp
  qed
  from a b show ?thesis by fastforce
qed


text \<open>An instance: threshold 2, two bytes in two calls, and three bytes in three calls.\<close>

theorem threshold_boundary_witness:
  "fst (Write_all (New 2) [[1], [2]] world0) = Ret (2, None) \<and>
   filep (fst (snd (Write_all (New 2) [[1], [2]] world0))) = None \<and>
   snd (snd (Write_all (New 2) [[1], [2]] world0)) = world0 \<and>
   fst (Write_all (New 2) [[1], [2], [3]] world0) = Ret (3, None) \<and>
   filep (fst (snd (Write_all (New 2) [[1], [2], [3]] world0))) \<noteq> None \<and>
   stored (fst (snd (Write_all (New 2) [[1], [2], [3]] world0)))
          (snd (snd (Write_all (New 2) [[1], [2], [3]] world0))) = [1, 2, 3]"
  using threshold_boundary [of 2 "[[1], [2]]" world0]
        threshold_boundary [of 2 "[[1], [2], [3]]" world0]
  by (simp add: world0_def)

subsection \<open>Reading everything back\<close>

text \<open>
  What \<^verbatim>\<open>Read\<close> returns where there are bytes, and what a caller gets who reads to the
  end: the logical contents from the cursor on.
\<close>

lemma Read_mem_end:
  assumes "filep f = None" "int (slen (buf f)) \<le> off f"
  shows "Read f p w = (Ret (0, Some EOF), p, f, w)"
  using assms by (simp add: Read_def)

lemma Read_mem_data:
  assumes "filep f = None" "0 \<le> off f" "off f < int (slen (buf f))" "slice_ok (buf f)"
  shows "Read f p w =
     (Ret (min (length p) (slen (buf f) - nat (off f)), None),
      copy_bytes p (take (length p) (drop (nat (off f)) (sbytes (buf f)))),
      f\<lparr>off := off f + int (min (length p) (slen (buf f) - nat (off f)))\<rparr>, w)"
proof -
  from assms obtain s where s: "buf f = Some s" "len s \<le> length (arr s)" "nat (off f) < len s"
    by (cases "buf f") (auto simp add: slen_def slice_ok_def scap_def)
  define j where "j = nat (off f)"
  with assms(2) have o: "off f = int j" by simp
  from s(3) j_def have ol: "j < len s" by simp
  show ?thesis
  proof (cases "len s < j + length p")
    case True
    then have m: "min (length p) (len s - j) = len s - j" by simp
    have src: "take (len s - j) (drop j (arr s)) = take (length p) (drop j (take (len s) (arr s)))"
      using True by (simp add: drop_take)
    from True ol s(2) assms(1) show ?thesis
      unfolding Read_def copyBuffer_def subslice_def Let_def
      by (simp add: s(1) o slen_def scap_def sbytes_def m src nat_diff_distrib' of_nat_diff)
  next
    case False
    then have m: "min (length p) (len s - j) = length p" by simp
    have src: "take (length p) (drop j (arr s)) = take (length p) (drop j (take (len s) (arr s)))"
      using False by (simp add: drop_take)
    from False ol s(2) assms(1) show ?thesis
      unfolding Read_def copyBuffer_def subslice_def Let_def
      by (simp add: s(1) o slen_def scap_def sbytes_def m src nat_add_distrib)
  qed
qed


lemma Read_file_data:
  assumes "filep f = Some fd" "fds w fd = Some d" "faults w = []" "0 \<le> off f" "p \<noteq> []"
  shows "Read f p w =
     (Ret (length (take (length p) (drop (nat (off f)) (content (descs w d)))),
           if length (take (length p) (drop (nat (off f)) (content (descs w d)))) < length p
           then Some EOF else None),
      copy_bytes p (take (length p) (drop (nat (off f)) (content (descs w d)))),
      f\<lparr>off := off f + int (length (take (length p) (drop (nat (off f)) (content (descs w d)))))\<rparr>, w)"
  using assms
  by (simp add: Read_def file_ReadAt_def next_fault_def Let_def)

lemma take_copy_bytes: "length src \<le> length p \<Longrightarrow> take (length src) (copy_bytes p src) = src"
  by (simp add: copy_bytes_def)

lemma Read_all_mem:
  assumes "0 < k"
  shows "filep f = None \<Longrightarrow> slice_ok (buf f) \<Longrightarrow> 0 \<le> off f \<Longrightarrow>
         Read_all f k w acc =
           Some (Ret (acc @ drop (nat (off f)) (sbytes (buf f)), None),
                 f\<lparr>off := max (off f) (int (slen (buf f)))\<rparr>, w)"
proof (induction "slen (buf f) - nat (off f)" arbitrary: f acc rule: less_induct)
  case less
  have lb: "length (sbytes (buf f)) = slen (buf f)"
    using less.prems(2) by (auto simp add: sbytes_def slen_def slice_ok_def scap_def split: option.splits)
  show ?case
  proof (cases "int (slen (buf f)) \<le> off f")
    case True
    from True lb have "drop (nat (off f)) (sbytes (buf f)) = []" by simp
    moreover from True have "max (off f) (int (slen (buf f))) = off f" by simp
    ultimately show ?thesis
      using Read_mem_end [OF less.prems(1) True, of "replicate k 0" w]
      by (subst Read_all.simps) simp
  next
    case False
    then have lt: "off f < int (slen (buf f))" by simp
    define n where "n = min k (slen (buf f) - nat (off f))"
    define src where "src = take k (drop (nat (off f)) (sbytes (buf f)))"
    define f' where "f' = f\<lparr>off := off f + int n\<rparr>"
    have npos: "0 < n" using assms lt less.prems(3) by (simp add: n_def)
    have rd: "Read f (replicate k 0) w = (Ret (n, None), copy_bytes (replicate k 0) src, f', w)"
      using Read_mem_data [OF less.prems(1,3) lt less.prems(2), of "replicate k 0" w]
      by (simp add: n_def src_def f'_def)
    have ls: "length src = n" using lb by (simp add: src_def n_def min.commute)
    have tk: "take n (copy_bytes (replicate k 0) src) = src"
      using take_copy_bytes [of src "replicate k 0"] ls by (simp add: n_def)
    have dec: "slen (buf f') - nat (off f') < slen (buf f) - nat (off f)"
      using npos lt less.prems(3) by (simp add: f'_def nat_add_distrib)
    have pre: "filep f' = None" "slice_ok (buf f')" "0 \<le> off f'"
      using less.prems by (simp_all add: f'_def)
    have ih: "Read_all f' k w (acc @ src) =
           Some (Ret ((acc @ src) @ drop (nat (off f')) (sbytes (buf f')), None),
                 f'\<lparr>off := max (off f') (int (slen (buf f')))\<rparr>, w)"
      by (rule less.hyps [OF dec pre])
    have cat: "src @ drop (nat (off f')) (sbytes (buf f')) = drop (nat (off f)) (sbytes (buf f))"
    proof -
      have "nat (off f') = nat (off f) + n" using less.prems(3) by (simp add: f'_def nat_add_distrib)
      moreover have "src = take n (drop (nat (off f)) (sbytes (buf f)))"
      proof -
        have "src = take n src" using ls by simp
        also have "\<dots> = take (min n k) (drop (nat (off f)) (sbytes (buf f)))"
          by (simp add: src_def)
        also have "min n k = n" by (simp add: n_def)
        finally show ?thesis .
      qed
      ultimately show ?thesis
        by (simp add: f'_def add.commute [of _ n] flip: drop_drop)
    qed
    have fin: "f'\<lparr>off := max (off f') (int (slen (buf f')))\<rparr> = f\<lparr>off := max (off f) (int (slen (buf f)))\<rparr>"
      using lt less.prems(3) by (simp add: f'_def n_def)
    show ?thesis
      by (subst Read_all.simps) (simp add: rd tk ih cat fin)
  qed
qed


lemma Read_all_file:
  assumes "0 < k" "fds w fd = Some d" "faults w = []"
  shows "filep f = Some fd \<Longrightarrow> 0 \<le> off f \<Longrightarrow>
         Read_all f k w acc =
           Some (Ret (acc @ drop (nat (off f)) (content (descs w d)), None),
                 f\<lparr>off := max (off f) (int (length (content (descs w d))))\<rparr>, w)"
proof (induction "length (content (descs w d)) - nat (off f)" arbitrary: f acc rule: less_induct)
  case less
  define xs where "xs = content (descs w d)"
  define src where "src = take k (drop (nat (off f)) xs)"
  define f' where "f' = f\<lparr>off := off f + int (length src)\<rparr>"
  have ne: "replicate k (0::byte) \<noteq> []" using assms(1) by simp
  have rd: "Read f (replicate k 0) w =
      (Ret (length src, if length src < k then Some EOF else None), copy_bytes (replicate k 0) src, f', w)"
    using Read_file_data [OF less.prems(1) assms(2,3) less.prems(2) ne]
    by (simp add: src_def xs_def f'_def)
  have tk: "take (length src) (copy_bytes (replicate k 0) src) = src"
    using take_copy_bytes [of src "replicate k 0"] by (simp add: src_def)
  show ?case
  proof (cases "length src < k")
    case True
    then have all: "src = drop (nat (off f)) xs" by (simp add: src_def)
    have fin: "f' = f\<lparr>off := max (off f) (int (length xs))\<rparr>"
      using less.prems(2) by (simp add: f'_def all max_def)
    from True show ?thesis
      by (subst Read_all.simps) (simp add: rd tk all [symmetric] fin xs_def [symmetric])
  next
    case False
    then have lk: "length src = k" by (simp add: src_def)
    have room: "nat (off f) + k \<le> length xs"
      using lk assms(1) by (auto simp add: src_def min_def split: if_splits)
    have dec: "length (content (descs w d)) - nat (off f') < length (content (descs w d)) - nat (off f)"
      using assms(1) room less.prems(2) by (simp add: f'_def lk xs_def nat_add_distrib)
    have pre: "filep f' = Some fd" "0 \<le> off f'"
      using less.prems by (simp_all add: f'_def)
    have ih: "Read_all f' k w (acc @ src) =
           Some (Ret ((acc @ src) @ drop (nat (off f')) xs, None),
                 f'\<lparr>off := max (off f') (int (length xs))\<rparr>, w)"
      unfolding xs_def by (rule less.hyps [OF dec pre])
    have tk': "take k (copy_bytes (replicate k 0) src) = src" using tk lk by simp
    have cat: "src @ drop (nat (off f')) xs = drop (nat (off f)) xs"
    proof -
      have "nat (off f') = nat (off f) + k" using less.prems(2) by (simp add: f'_def lk nat_add_distrib)
      then show ?thesis
        by (simp add: src_def add.commute [of _ k] flip: drop_drop)
    qed
    have fin: "f'\<lparr>off := max (off f') (int (length xs))\<rparr> = f\<lparr>off := max (off f) (int (length xs))\<rparr>"
      using room less.prems(2) by (simp add: f'_def lk)
    from False show ?thesis
      by (subst Read_all.simps) (simp add: rd tk' lk ih cat fin xs_def [symmetric])
  qed
qed

lemma Read_all_stored:
  assumes "0 < k" "readable f w" "0 \<le> off f"
  shows "Read_all f k w acc =
           Some (Ret (acc @ drop (nat (off f)) (stored f w), None),
                 f\<lparr>off := max (off f) (int (length (stored f w)))\<rparr>, w)"
proof (cases "filep f")
  case None
  with assms(2) have ok: "slice_ok (buf f)" by (simp add: readable_def)
  then have "length (sbytes (buf f)) = slen (buf f)"
    by (auto simp add: sbytes_def slen_def slice_ok_def scap_def split: option.splits)
  with Read_all_mem [OF assms(1) None ok assms(3), of w acc] None show ?thesis
    by (simp add: stored_def)
next
  case (Some fd)
  with assms(2) obtain d where d: "fds w fd = Some d" and nf: "faults w = []"
    by (auto simp add: readable_def)
  from Read_all_file [OF assms(1) d nf Some assms(3), of acc] Some d show ?thesis
    by (simp add: stored_def)
qed

lemma Rewind_readable:
  assumes "readable f w"
  shows "fst (Rewind f w) = None \<and> fst (snd (Rewind f w)) = f\<lparr>off := 0\<rparr> \<and>
         readable (f\<lparr>off := 0\<rparr>) (snd (snd (Rewind f w))) \<and>
         stored (f\<lparr>off := 0\<rparr>) (snd (snd (Rewind f w))) = stored f w"
  using assms
  by (auto simp add: readable_def Rewind_def file_Seek_def next_fault_def stored_def Let_def
        split: option.splits)

lemma Read_world: "Read f p w = (r, p', f', w') \<Longrightarrow> same_files w w'"
  by (auto simp add: Read_def file_ReadAt_def next_fault_def Let_def same_files_def
        split: if_splits option.splits prod.splits outcome.splits list.splits)

lemma Read_seq_world: "Read_seq f qs w = (f', w') \<Longrightarrow> same_files w w'"
proof (induction qs arbitrary: f w)
  case Nil
  then show ?case by (simp add: same_files_def)
next
  case (Cons q qs)
  obtain r q' f1 w1 where rd: "Read f q w = (r, q', f1, w1)" by (cases "Read f q w") auto
  note w1 = Read_world [OF rd]
  show ?case
  proof (cases r)
    case (Panic pn)
    with Cons.prems rd w1 show ?thesis by simp
  next
    case (Ret x)
    with Cons.prems rd have "Read_seq f1 qs w1 = (f', w')" by simp
    from Cons.IH [OF this] w1 show ?thesis by (simp add: same_files_def)
  qed
qed

lemma same_files_faults: "same_files w w' \<Longrightarrow> w'\<lparr>faults := fs\<rparr> = w\<lparr>faults := fs\<rparr>"
  by (cases w, cases w') (simp add: same_files_def)

lemma Read_world_no_fault: "faults w = [] \<Longrightarrow> Read f p w = (r, p', f', w') \<Longrightarrow> faults w' = []"
  by (auto simp add: Read_def file_ReadAt_def next_fault_def Let_def
        split: if_splits option.splits prod.splits outcome.splits)

lemma Read_seq_no_fault: "faults w = [] \<Longrightarrow> Read_seq f qs w = (f', w') \<Longrightarrow> faults w' = []"
proof (induction qs arbitrary: f w)
  case Nil
  then show ?case by simp
next
  case (Cons q qs)
  obtain r q' f1 w1 where rd: "Read f q w = (r, q', f1, w1)" by (cases "Read f q w") auto
  note w1 = Read_world_no_fault [OF Cons.prems(1) rd]
  show ?case
  proof (cases r)
    case (Panic pn)
    with Cons.prems rd w1 show ?thesis by simp
  next
    case (Ret x)
    with Cons.prems rd have "Read_seq f1 qs w1 = (f', w')" by simp
    from Cons.IH [OF w1 this] show ?thesis .
  qed
qed

lemma Read_seq_keeps: "Read_seq f qs w = (f', w') \<Longrightarrow> filep f' = filep f \<and> buf f' = buf f"
proof (induction qs arbitrary: f w)
  case Nil
  then show ?case by simp
next
  case (Cons q qs)
  obtain r q' f1 w1 where rd: "Read f q w = (r, q', f1, w1)" by (cases "Read f q w") auto
  note k = Read_keeps [OF rd]
  show ?case
  proof (cases r)
    case (Panic pn)
    with Cons.prems rd k show ?thesis by simp
  next
    case (Ret x)
    with Cons.prems rd have "Read_seq f1 qs w1 = (f', w')" by simp
    from Cons.IH [OF this] k show ?thesis by simp
  qed
qed

lemma Clone_readable:
  assumes "Clone f w = (Inr c, w1)" "readable f w"
  shows "readable c w1 \<and> stored c w1 = stored f w \<and> readable f w1 \<and> stored f w1 = stored f w \<and>
         faults w1 = faults w"
  using assms
  by (auto simp add: Clone_def Dup_def Let_def readable_def stored_def next_fault_def
        split: option.splits prod.splits sum.splits if_splits)


lemma readable_same_files:
  assumes "same_files w w'" "faults w = [] \<longrightarrow> faults w' = []" "readable f w"
  shows "readable f w' \<and> stored f w' = stored f w"
  using assms by (auto simp add: same_files_def readable_def stored_def split: option.splits)

lemma readable_cong:
  assumes "filep f' = filep f" "buf f' = buf f"
  shows "readable f' w = readable f w \<and> stored f' w = stored f w"
  using assms by (auto simp add: readable_def stored_def split: option.splits)

lemma Read_all_from_start:
  assumes "0 < k" "readable f w"
  shows "fst (Rewind f w) = None \<and>
         map_option fst (Read_all (fst (snd (Rewind f w))) k (snd (snd (Rewind f w))) [])
           = Some (Ret (stored f w, None))"
proof -
  note r = Rewind_readable [OF assms(2)]
  from r have rd: "readable (f\<lparr>off := 0\<rparr>) (snd (snd (Rewind f w)))" by simp
  have "0 \<le> off (f\<lparr>off := 0\<rparr>)" by simp
  from Read_all_stored [OF assms(1) rd this, of "[]"] r show ?thesis by simp
qed

text \<open>
  C8 (clone independence). After \<^verbatim>\<open>Clone\<close>, let the original call \<^verbatim>\<open>Read\<close> any number
  of times with any destinations. Then a \<^verbatim>\<open>Read\<close> of the clone returns what it would
  have returned had the original not read at all, whatever faults are to come: the
  reads of the original move only its own cursor, not the position of the shared open
  file. And when the buffer is readable, the clone and the original, each rewound
  and read to the end through a destination of any positive size, both get the full
  contents the buffer had when it was cloned.
\<close>

theorem Clone_independence:
  assumes "Clone f w = (Inr c, w1)" "Read_seq f qs w1 = (f', w2)"
  shows "Read c q (w2\<lparr>faults := fs\<rparr>) = Read c q (w1\<lparr>faults := fs\<rparr>) \<and>
         (readable f w \<and> 0 < k \<longrightarrow>
            map_option fst (Read_all (fst (snd (Rewind c w2))) k (snd (snd (Rewind c w2))) [])
              = Some (Ret (stored f w, None)) \<and>
            map_option fst (Read_all (fst (snd (Rewind f' w2))) k (snd (snd (Rewind f' w2))) [])
              = Some (Ret (stored f w, None)))"
proof -
  note sf = Read_seq_world [OF assms(2)]
  from same_files_faults [OF sf, of fs]
  have a: "Read c q (w2\<lparr>faults := fs\<rparr>) = Read c q (w1\<lparr>faults := fs\<rparr>)" by simp
  have b: "map_option fst (Read_all (fst (snd (Rewind c w2))) k (snd (snd (Rewind c w2))) [])
              = Some (Ret (stored f w, None)) \<and>
           map_option fst (Read_all (fst (snd (Rewind f' w2))) k (snd (snd (Rewind f' w2))) [])
              = Some (Ret (stored f w, None))"
    if rf: "readable f w" and k: "0 < k"
  proof -
    note cl = Clone_readable [OF assms(1) rf]
    have nf: "faults w1 = [] \<longrightarrow> faults w2 = []"
      using Read_seq_no_fault [OF _ assms(2)] by blast
    from readable_same_files [OF sf nf] cl
    have c2: "readable c w2" "stored c w2 = stored f w" "readable f w2" "stored f w2 = stored f w"
      by simp_all
    from Read_seq_keeps [OF assms(2)] readable_cong [of f' f w2] c2
    have f2: "readable f' w2" "stored f' w2 = stored f w" by simp_all
    from Read_all_from_start [OF k c2(1)] Read_all_from_start [OF k f2(1)] c2(2) f2(2)
    show ?thesis by simp
  qed
  from a b show ?thesis by blast
qed

text \<open>
  An instance: the file-backed buffer with the bytes 1, 2 is cloned onto descriptor 4, the
  original reads to its end, and both still read 1, 2 from the start.
\<close>

theorem Clone_independence_witness:
  "Clone buffer12 world12
     = (Inr (buffer12\<lparr>filep := Some 4\<rparr>), world12\<lparr>fds := (fds world12)(4 \<mapsto> 0), nfd := 5\<rparr>) \<and>
   Read_seq buffer12 [[0, 0, 0]] (world12\<lparr>fds := (fds world12)(4 \<mapsto> 0), nfd := 5\<rparr>)
     = (buffer12\<lparr>off := 2\<rparr>, world12\<lparr>fds := (fds world12)(4 \<mapsto> 0), nfd := 5\<rparr>) \<and>
   map_option fst
     (Read_all (fst (snd (Rewind (buffer12\<lparr>filep := Some 4\<rparr>)
                                 (world12\<lparr>fds := (fds world12)(4 \<mapsto> 0), nfd := 5\<rparr>))))
               1
               (snd (snd (Rewind (buffer12\<lparr>filep := Some 4\<rparr>)
                                 (world12\<lparr>fds := (fds world12)(4 \<mapsto> 0), nfd := 5\<rparr>))))
               [])
     = Some (Ret ([1, 2], None))"
proof -
  let ?w1 = "world12\<lparr>fds := (fds world12)(4 \<mapsto> 0), nfd := 5\<rparr>"
  have cl: "Clone buffer12 world12 = (Inr (buffer12\<lparr>filep := Some 4\<rparr>), ?w1)"
    by (simp add: Clone_def Dup_def buffer12_def world12_def New_def world0_def next_fault_def)
  have rs: "Read_seq buffer12 [[0, 0, 0]] ?w1 = (buffer12\<lparr>off := 2\<rparr>, ?w1)"
    by (simp add: Read_def file_ReadAt_def buffer12_def world12_def New_def world0_def
          next_fault_def Let_def)
  have rd: "readable buffer12 world12" and st: "stored buffer12 world12 = [1, 2]"
    by (simp_all add: readable_def stored_def buffer12_def world12_def New_def world0_def)
  from Clone_independence [OF cl rs, of "[]" "[]" 1] rd st cl rs show ?thesis
    by simp
qed

subsection \<open>Round trip\<close>

lemma sound_state_readable: "sound_state T f w \<Longrightarrow> readable f w"
  by (auto simp add: sound_state_def readable_def mem_shape_def slice_ok_def slen_def scap_def
        split: option.splits)

lemma round_trip_positive_threshold:
  assumes "0 < T" "faults w = []" "0 < k"
  shows "fst (Write_all (New T) ps w) = Ret (length (concat ps), None) \<and>
         fst (Rewind (fst (snd (Write_all (New T) ps w))) (snd (snd (Write_all (New T) ps w)))) = None \<and>
         map_option fst
           (Read_all (fst (snd (Rewind (fst (snd (Write_all (New T) ps w))) (snd (snd (Write_all (New T) ps w))))))
                     k
                     (snd (snd (Rewind (fst (snd (Write_all (New T) ps w))) (snd (snd (Write_all (New T) ps w))))))
                     [])
           = Some (Ret (concat ps, None))"
proof -
  have new: "sound_state T (New T) w" "stored (New T) w = []"
    by (simp_all add: sound_state_def New_def mem_shape_def stored_def sbytes_def)
  from assms(2) have "(filep (New T) = None \<and> length (stored (New T) w) + length (concat ps) \<le> nat T)
      \<or> faults w = []" by simp
  note s = Write_all_sound [OF assms(1) new(1) this]
  from s have rd: "readable (fst (snd (Write_all (New T) ps w))) (snd (snd (Write_all (New T) ps w)))"
    by (blast intro: sound_state_readable)
  from Read_all_from_start [OF assms(3) rd] s new(2) show ?thesis by simp
qed

text \<open>
  C1 (round trip). The claim: for every byte sequence and every threshold, the bytes
  written come back on reading to the end after \<^verbatim>\<open>Rewind\<close>. For every positive
  threshold they do (lemma \<open>round_trip_positive_threshold\<close>, when no system call
  fails). With threshold 0, which the documentation of \<^verbatim>\<open>MaxBufSize\<close> calls memory
  only, a first \<^verbatim>\<open>Write\<close> of one byte or more panics, so nothing is stored to read
  back.
\<close>

theorem round_trip_fails_at_zero_threshold:
  "fst (Write_all (New 0) ((b # p) # ps) w) = Panic SliceBounds"
  by (simp add: Write_def New_def appendBuffer_def make_bytes_def reslice_def slen_def)

subsection \<open>ReadFrom on a fresh buffer\<close>

text \<open>
  Where the first read of the source fills the whole region at once, the window is never
  taken a second time, and \<^verbatim>\<open>ReadFrom\<close> does what C9 says: it promotes, streams the rest
  into the file, and returns the count of all bytes of the source (when no system call
  fails).
\<close>

lemma file_Write_appends:
  assumes "fds w fd = Some d" "faults w = []" "pos (descs w d) = length (content (descs w d))"
  shows "fst (file_Write (Some fd) p w) = (length p, None) \<and>
         fds (snd (file_Write (Some fd) p w)) = fds w \<and>
         faults (snd (file_Write (Some fd) p w)) = [] \<and>
         content (descs (snd (file_Write (Some fd) p w)) d) = content (descs w d) @ p \<and>
         pos (descs (snd (file_Write (Some fd) p w)) d) = length (content (descs w d)) + length p"
  using assms by (simp add: file_Write_def next_fault_def write_at_def)

lemma reader_Read_split:
  assumes "0 < k" "reader_Read r k = ((data, er), r')"
  shows "(er = None \<longrightarrow> rdata r = data @ rdata r' \<and> rerror r = rerror r' \<and> rsize r' < rsize r) \<and>
         (\<forall>e. er = Some e \<longrightarrow> rdata r = data \<and> rerror r = e)"
proof (cases r)
  case Nil
  with assms show ?thesis by auto
next
  case (Cons x rest)
  obtain bs e where x: "x = (bs, e)" by (cases x)
  show ?thesis
  proof (cases e)
    case None
    with assms Cons x show ?thesis by (auto split: if_splits)
  next
    case (Some y)
    with assms Cons x show ?thesis by (auto split: if_splits)
  qed
qed

lemma copy_to_file_exact:
  assumes "fds w fd = Some d" "faults w = []" "pos (descs w d) = length (content (descs w d))"
  shows "fst (copy_to_file (Some fd) r w n)
           = (n + length (rdata r), if rerror r = EOF then None else Some (rerror r)) \<and>
         fds (snd (snd (copy_to_file (Some fd) r w n))) = fds w \<and>
         faults (snd (snd (copy_to_file (Some fd) r w n))) = [] \<and>
         content (descs (snd (snd (copy_to_file (Some fd) r w n))) d) = content (descs w d) @ rdata r"
  using assms
proof (induction "rsize r" arbitrary: r w n rule: less_induct)
  case less
  obtain data er r' where rd: "reader_Read r 32768 = ((data, er), r')"
    by (cases "reader_Read r 32768") auto
  have kpos: "(0::nat) < 32768" by simp
  note sp = reader_Read_split [OF kpos rd]
  define w' where "w' = (if data \<noteq> [] then snd (file_Write (Some fd) data w) else w)"
  have wr: "(if data \<noteq> [] then file_Write (Some fd) data w else ((0, None), w)) = ((length data, None), w')"
    using file_Write_appends [OF less.prems, of data]
    by (cases "file_Write (Some fd) data w") (auto simp add: w'_def)
  have w': "fds w' = fds w" "faults w' = []" "content (descs w' d) = content (descs w d) @ data"
    "pos (descs w' d) = length (content (descs w' d))"
    using file_Write_appends [OF less.prems, of data] less.prems by (auto simp add: w'_def)
  show ?case
  proof (cases er)
    case None
    with sp have s: "rdata r = data @ rdata r'" "rerror r = rerror r'" "rsize r' < rsize r" by simp_all
    from w'(1) less.prems(1) have fd': "fds w' fd = Some d" by simp
    note ih = less.hyps [OF s(3) fd' w'(2) w'(4), of "n + length data"]
    have unf: "copy_to_file (Some fd) r w n = copy_to_file (Some fd) r' w' (n + length data)"
      by (subst copy_to_file.simps) (simp add: rd wr None)
    from ih s w' show ?thesis unfolding unf by simp
  next
    case (Some e)
    with sp have s: "rdata r = data" "rerror r = e" by simp_all
    have unf: "copy_to_file (Some fd) r w n = ((n + length data, if e = EOF then None else Some e), r', w')"
      by (subst copy_to_file.simps) (simp add: rd wr Some)
    from s w' show ?thesis unfolding unf by simp
  qed
qed


lemma fill_first_read_fills:
  assumes "0 < c" "c < length bs \<or> (c = length bs \<and> e = None)"
  shows "fill \<lparr>arr = replicate c 0, len = 0\<rparr> ((bs, e) # rest) 0
           = Some (Break, \<lparr>arr = take c bs, len = c\<rparr>,
                   if c < length bs then (drop c bs, e) # rest else rest)"
  using assms
  by (subst fill.simps) (auto simp add: Let_def store_at_def reslice_def)

lemma moveToFile_succeeds:
  assumes "faults w = []"
  shows "fst (moveToFile f w) = None \<and>
         fst (snd (moveToFile f w)) = f\<lparr>filep := Some (nfd w)\<rparr> \<and>
         fds (snd (snd (moveToFile f w))) (nfd w) = Some (ndesc w) \<and>
         faults (snd (snd (moveToFile f w))) = [] \<and>
         content (descs (snd (snd (moveToFile f w))) (ndesc w)) = sbytes (buf f) \<and>
         pos (descs (snd (snd (moveToFile f w))) (ndesc w)) = length (sbytes (buf f))"
  using assms
  by (simp add: moveToFile_def TempFile_def Remove_def file_Write_def next_fault_def write_at_def
        Let_def)

lemma ReadFrom_fill_then_promote:
  assumes "0 < T" "faults w = []" "nat T < length bs \<or> (nat T = length bs \<and> e = None)"
  shows "\<exists>f' r' w'.
           ReadFrom (New T) ((bs, e) # rest) w
             = Some (Ret (length (rdata ((bs, e) # rest)),
                          if rerror ((bs, e) # rest) = EOF then None else Some (rerror ((bs, e) # rest))),
                     f', r', w') \<and>
           filep f' \<noteq> None \<and> buf f' = None \<and> stored f' w' = rdata ((bs, e) # rest)"
proof -
  define c where "c = nat T"
  define r1 where "r1 = (if c < length bs then (drop c bs, e) # rest else rest)"
  define s1 where "s1 = \<lparr>arr = take c bs, len = c\<rparr>"
  define f1 where "f1 = (New T)\<lparr>buf := Some s1\<rparr>"
  from assms(1) have cpos: "0 < c" by (simp add: c_def)
  from assms(3) have c3: "c < length bs \<or> (c = length bs \<and> e = None)" by (simp add: c_def)
  have fl: "fill \<lparr>arr = replicate c 0, len = 0\<rparr> ((bs, e) # rest) 0 = Some (Break, s1, r1)"
    using fill_first_read_fills [OF cpos c3] by (simp add: s1_def r1_def)
  have mk: "(case buf (New T) of None \<Rightarrow> make_bytes (MaxBufSize (New T)) | Some s \<Rightarrow> Inr s)
      = Inr \<lparr>arr = replicate c 0, len = 0\<rparr>"
    using assms(1) by (simp add: New_def make_bytes_def c_def)
  have fn: "filep (New T) = None" "MaxBufSize (New T) \<noteq> 0"
    using assms(1) by (simp_all add: New_def)
  note u = ReadFrom_fill_unfold [OF fn mk fl, of w, folded f1_def]
  note m = moveToFile_succeeds [OF assms(2), of f1]
  obtain e1 f2 w2 where mv: "moveToFile f1 w = (e1, f2, w2)" by (cases "moveToFile f1 w") auto
  with m have m2: "e1 = None" "f2 = f1\<lparr>filep := Some (nfd w)\<rparr>" "fds w2 (nfd w) = Some (ndesc w)"
    "faults w2 = []" "content (descs w2 (ndesc w)) = sbytes (buf f1)"
    "pos (descs w2 (ndesc w)) = length (sbytes (buf f1))" by simp_all
  have sb: "sbytes (buf f1) = take c bs" using c3 by (auto simp add: f1_def s1_def sbytes_def)
  from m2(5,6) have atend: "pos (descs w2 (ndesc w)) = length (content (descs w2 (ndesc w)))" by simp
  note cp = copy_to_file_exact [OF m2(3,4) atend, of r1 0]
  obtain n err r3 w3 where c3': "copy_to_file (Some (nfd w)) r1 w2 0 = ((n, err), r3, w3)"
    by (cases "copy_to_file (Some (nfd w)) r1 w2 0") auto
  with cp have c4: "n = length (rdata r1)" "err = (if rerror r1 = EOF then None else Some (rerror r1))"
    "fds w3 = fds w2" "content (descs w3 (ndesc w)) = content (descs w2 (ndesc w)) @ rdata r1"
    by simp_all
  have rd: "rdata ((bs, e) # rest) = take c bs @ rdata r1" "rerror ((bs, e) # rest) = rerror r1"
    using c3 by (cases e; auto simp add: r1_def)+
  have len1: "len s1 = length (take c bs)" using c3 by (auto simp add: s1_def)
  have res: "ReadFrom (New T) ((bs, e) # rest) w
      = Some (Ret (n + len s1, err), f2\<lparr>buf := None\<rparr>, r3, w3)"
    using u mv m2(1,2) c3' by (simp add: f1_def)
  have st: "stored (f2\<lparr>buf := None\<rparr>) w3 = rdata ((bs, e) # rest)"
    using m2 c4 sb rd by (simp add: stored_def)
  from res st c4 rd len1 m2(2) show ?thesis by (simp add: add.commute)
qed

end
